theory Spec2Isabelle
  imports Main "HOL-Library.Multiset"
begin

section \<open>ConfidentialUnoGame: the card codec\<close>

text \<open>
  The contract \<^verbatim>\<open>ConfidentialUnoGame.sol\<close> identifies a card by an id in \<open>[0,108)\<close>.
  Solidity 0.8 arithmetic is checked, and every quantity below is bounded by the deck
  size, so the unsigned integers of the source are modelled as \<open>nat\<close>.
\<close>

type_synonym address = nat
type_synonym card = nat
type_synonym elist = "card list"

definition DECK_SIZE :: nat where "DECK_SIZE = 108"
definition INITIAL_HAND_SIZE :: nat where "INITIAL_HAND_SIZE = 7"
definition MAX_PLAYERS :: nat where "MAX_PLAYERS = 10"

definition NUMBER_CARDS_END :: nat where "NUMBER_CARDS_END = 76"
definition SKIP_START :: nat where "SKIP_START = 76"
definition SKIP_END :: nat where "SKIP_END = 84"
definition REVERSE_START :: nat where "REVERSE_START = 84"
definition REVERSE_END :: nat where "REVERSE_END = 92"
definition DRAW_TWO_START :: nat where "DRAW_TWO_START = 92"
definition DRAW_TWO_END :: nat where "DRAW_TWO_END = 100"
definition WILD_START :: nat where "WILD_START = 100"
definition WILD_END :: nat where "WILD_END = 104"
definition WILD_DRAW_FOUR_START :: nat where "WILD_DRAW_FOUR_START = 104"
definition WILD_DRAW_FOUR_END :: nat where "WILD_DRAW_FOUR_END = 108"

definition CARD_TYPE_NUMBER :: nat where "CARD_TYPE_NUMBER = 0"
definition CARD_TYPE_SKIP :: nat where "CARD_TYPE_SKIP = 1"
definition CARD_TYPE_REVERSE :: nat where "CARD_TYPE_REVERSE = 2"
definition CARD_TYPE_DRAW_TWO :: nat where "CARD_TYPE_DRAW_TWO = 3"
definition CARD_TYPE_WILD :: nat where "CARD_TYPE_WILD = 4"
definition CARD_TYPE_WILD_DRAW_FOUR :: nat where "CARD_TYPE_WILD_DRAW_FOUR = 5"

text \<open>\<^verbatim>\<open>_getCardColor\<close>: 0 = Red, 1 = Yellow, 2 = Green, 3 = Blue, 4 = no colour.\<close>

definition getCardColor :: "nat \<Rightarrow> nat" where
  "getCardColor cardId =
     (if cardId \<ge> WILD_START then 4
      else if cardId < NUMBER_CARDS_END then cardId div 19
      else if cardId < SKIP_END then (cardId - SKIP_START) div 2
      else if cardId < REVERSE_END then (cardId - REVERSE_START) div 2
      else if cardId < DRAW_TWO_END then (cardId - DRAW_TWO_START) div 2
      else 4)"

text \<open>\<^verbatim>\<open>_getCardType\<close>.\<close>

definition getCardType :: "nat \<Rightarrow> nat" where
  "getCardType cardId =
     (if cardId < NUMBER_CARDS_END then CARD_TYPE_NUMBER
      else if cardId < SKIP_END then CARD_TYPE_SKIP
      else if cardId < REVERSE_END then CARD_TYPE_REVERSE
      else if cardId < DRAW_TWO_END then CARD_TYPE_DRAW_TWO
      else if cardId < WILD_END then CARD_TYPE_WILD
      else CARD_TYPE_WILD_DRAW_FOUR)"

text \<open>\<^verbatim>\<open>_getCardValue\<close>.\<close>

definition getCardValue :: "nat \<Rightarrow> nat" where
  "getCardValue cardId =
     (if cardId \<ge> NUMBER_CARDS_END then 0
      else let posInColor = cardId mod 19 in
        if posInColor = 0 then 0
        else if posInColor \<le> 9 then posInColor
        else posInColor - 9)"

text \<open>\<^verbatim>\<open>_isCardPlayableInternal\<close>.\<close>

definition isCardPlayableInternal :: "nat \<Rightarrow> nat \<Rightarrow> nat \<Rightarrow> bool" where
  "isCardPlayableInternal cardId topId curColor =
     (if cardId \<ge> WILD_START then True
      else if getCardColor cardId = curColor then True
      else let cardType = getCardType cardId; topType = getCardType topId in
        if cardType = topType \<and> cardType \<noteq> CARD_TYPE_NUMBER then True
        else if cardType = CARD_TYPE_NUMBER \<and> topType = CARD_TYPE_NUMBER
          then getCardValue cardId = getCardValue topId
        else False)"

text \<open>The number of Number cards of one colour that carry one rank.\<close>

definition rankCount :: "nat \<Rightarrow> nat \<Rightarrow> nat" where
  "rankCount c r =
     length (filter (\<lambda>i. getCardColor i = c \<and> getCardValue i = r) [0..<NUMBER_CARDS_END])"

section \<open>ConfidentialUnoGame: contract state\<close>

text \<open>
  An \<^verbatim>\<open>euint256\<close> is modelled by the card id it encrypts, an \<^verbatim>\<open>elist\<close> by the list of
  the ids it holds. The access-control calls (\<^verbatim>\<open>inco.allow\<close>) and the events change no
  game state and are left out. The operations of the external encrypted-list library are
  the list operations below; every index and range the contract passes to them is
  guarded by the contract's own checks.
\<close>

definition slice :: "elist \<Rightarrow> nat \<Rightarrow> nat \<Rightarrow> elist" where
  "slice xs start stop = take (stop - start) (drop start xs)"

definition getEuint256 :: "elist \<Rightarrow> nat \<Rightarrow> card" where
  "getEuint256 xs i = xs ! i"

datatype GameStatus = NotStarted | Started | Ended

datatype error =
    InvalidGameID | NotInRequiredStatus | NotAPlayer | InsufficientFee | InvalidInitialCardID
  | GameFull | AlreadyInGame | NotEnoughCards | NeedAtLeastTwoPlayers | FeeRequired
  | NotYourTurn | InvalidColor | InvalidCardID | CardIndexOutOfBounds | CardNotPlayable
  | MustHaveTwoCardsToCallUno | CannotPenalizeYourself | FeeRequiredForPenalty
  | ChallengeWindowNotOpen | TargetNotInChallengeWindow | PenaltyAlreadyApplied
  | NoCardsLeftToReshuffle | Panic | NonPayableCall

text \<open>
  The struct \<^verbatim>\<open>Game\<close> (field \<^verbatim>\<open>id\<close> is \<open>id_game\<close>; \<^verbatim>\<open>gameHash\<close> is never written
  and is left out). \<open>topCard\<close> is the encrypted top card, \<open>topCardId\<close> the public id.
\<close>

record Game =
  id_game :: nat
  players :: "address list"
  status :: GameStatus
  startTime :: nat
  endTime :: nat
  deck :: elist
  moves :: elist
  topCard :: card
  topCardId :: nat
  deckIndex :: nat
  currentPlayerIndex :: nat
  direction :: int
  currentColor :: nat
  winner :: address
  pendingDraws :: nat
  skipNextPlayer :: bool

text \<open>The storage of the contract; a Solidity mapping is a total function.\<close>

record contract =
  gameIdCounter :: nat
  activeGames :: "nat list"
  notStartedGames :: "nat list"
  games :: "nat \<Rightarrow> Game"
  playerHands :: "nat \<Rightarrow> address \<Rightarrow> elist"
  hasCalledUno :: "nat \<Rightarrow> address \<Rightarrow> bool"
  unoPenaltyApplied :: "nat \<Rightarrow> address \<Rightarrow> bool"
  unoWindowOpen :: "nat \<Rightarrow> bool"
  unoWindowPlayer :: "nat \<Rightarrow> address"

text \<open>
  What a transaction receives from its environment: the caller, the value sent, the block
  time, the fee \<^verbatim>\<open>inco.getFee()\<close>, and the outcomes of the two random operations of the
  encrypted-list library, \<^verbatim>\<open>shuffledRange(0, DECK_SIZE)\<close> and \<^verbatim>\<open>shuffle\<close>.
\<close>

record env =
  msg_sender :: address
  msg_value :: nat
  block_timestamp :: nat
  inco_getFee :: nat
  ePreview_shuffledRange :: elist
  ePreview_shuffle :: "elist \<Rightarrow> elist"

definition upd_game :: "nat \<Rightarrow> (Game \<Rightarrow> Game) \<Rightarrow> contract \<Rightarrow> contract" where
  "upd_game gameId f s = s\<lparr>games := (games s)(gameId := f (games s gameId))\<rparr>"

definition set_hand :: "nat \<Rightarrow> address \<Rightarrow> elist \<Rightarrow> contract \<Rightarrow> contract" where
  "set_hand gameId player hand s =
     s\<lparr>playerHands := (playerHands s)(gameId := (playerHands s gameId)(player := hand))\<rparr>"

definition set_hasCalledUno :: "nat \<Rightarrow> address \<Rightarrow> bool \<Rightarrow> contract \<Rightarrow> contract" where
  "set_hasCalledUno gameId player b s =
     s\<lparr>hasCalledUno := (hasCalledUno s)(gameId := (hasCalledUno s gameId)(player := b))\<rparr>"

definition set_unoPenaltyApplied :: "nat \<Rightarrow> address \<Rightarrow> bool \<Rightarrow> contract \<Rightarrow> contract" where
  "set_unoPenaltyApplied gameId player b s =
     s\<lparr>unoPenaltyApplied :=
         (unoPenaltyApplied s)(gameId := (unoPenaltyApplied s gameId)(player := b))\<rparr>"

definition set_unoWindowOpen :: "nat \<Rightarrow> bool \<Rightarrow> contract \<Rightarrow> contract" where
  "set_unoWindowOpen gameId b s = s\<lparr>unoWindowOpen := (unoWindowOpen s)(gameId := b)\<rparr>"

definition set_unoWindowPlayer :: "nat \<Rightarrow> address \<Rightarrow> contract \<Rightarrow> contract" where
  "set_unoWindowPlayer gameId player s =
     s\<lparr>unoWindowPlayer := (unoWindowPlayer s)(gameId := player)\<rparr>"

text \<open>The modifiers \<^verbatim>\<open>validateGame\<close> and \<^verbatim>\<open>onlyPlayer\<close>.\<close>

definition validateGame :: "contract \<Rightarrow> nat \<Rightarrow> GameStatus \<Rightarrow> error + unit" where
  "validateGame s gameId requiredStatus =
     (if \<not> (gameId > 0 \<and> gameId \<le> gameIdCounter s) then Inl InvalidGameID
      else if status (games s gameId) \<noteq> requiredStatus then Inl NotInRequiredStatus
      else Inr ())"

definition onlyPlayer :: "env \<Rightarrow> contract \<Rightarrow> nat \<Rightarrow> error + unit" where
  "onlyPlayer e s gameId =
     (if msg_sender e \<in> set (players (games s gameId)) then Inr () else Inl NotAPlayer)"

text \<open>
  \<^verbatim>\<open>_removeFromActiveGames\<close> and \<^verbatim>\<open>_removeFromNotStartedGames\<close>: the first occurrence
  is overwritten by the last element, which is then popped.
\<close>

definition removeFromList :: "nat list \<Rightarrow> nat \<Rightarrow> nat list" where
  "removeFromList xs gameId =
     (if gameId \<in> set xs
      then butlast (xs[length (takeWhile (\<lambda>x. x \<noteq> gameId) xs) := last xs])
      else xs)"

definition removeFromActiveGames :: "nat \<Rightarrow> contract \<Rightarrow> contract" where
  "removeFromActiveGames gameId s = s\<lparr>activeGames := removeFromList (activeGames s) gameId\<rparr>"

definition removeFromNotStartedGames :: "nat \<Rightarrow> contract \<Rightarrow> contract" where
  "removeFromNotStartedGames gameId s =
     s\<lparr>notStartedGames := removeFromList (notStartedGames s) gameId\<rparr>"

section \<open>ConfidentialUnoGame: lobby actions\<close>

text \<open>\<^verbatim>\<open>_dealHandToPlayer\<close>: stores the hand, returns the next deck position.\<close>

definition dealHandToPlayer :: "nat \<Rightarrow> address \<Rightarrow> elist \<Rightarrow> nat \<Rightarrow> contract \<Rightarrow> contract \<times> nat" where
  "dealHandToPlayer gameId player dk startPos s =
     (set_hand gameId player (slice dk startPos (startPos + INITIAL_HAND_SIZE)) s,
      startPos + INITIAL_HAND_SIZE)"

text \<open>\<^verbatim>\<open>createGame\<close>: returns the new game id with the new storage.\<close>

definition createGame :: "env \<Rightarrow> address \<Rightarrow> nat \<Rightarrow> contract \<Rightarrow> error + (nat \<times> contract)" where
  "createGame e creator initialTopCardId s =
     (if \<not> msg_value e \<ge> inco_getFee e * 2 then Inl InsufficientFee
      else if \<not> initialTopCardId < DECK_SIZE then Inl InvalidInitialCardID
      else
        let s1 = s\<lparr>gameIdCounter := gameIdCounter s + 1\<rparr>;
            newGameId = gameIdCounter s1;
            shuffledDeck = ePreview_shuffledRange e;
            emptyMoves = [];
            s2 = upd_game newGameId (\<lambda>g. g\<lparr>id_game := newGameId, players := [creator],
                   status := NotStarted, startTime := block_timestamp e,
                   currentPlayerIndex := 0, deck := shuffledDeck, moves := emptyMoves,
                   deckIndex := 0, direction := 1, pendingDraws := 0,
                   skipNextPlayer := False\<rparr>) s1;
            (s3, deckPos) = dealHandToPlayer newGameId creator shuffledDeck 0 s2;
            s4 = upd_game newGameId (\<lambda>g. g\<lparr>deckIndex := deckPos\<rparr>) s3;
            top = getEuint256 shuffledDeck deckPos;
            s5 = upd_game newGameId (\<lambda>g. g\<lparr>deckIndex := deckPos + 1, topCard := top,
                   topCardId := initialTopCardId\<rparr>) s4;
            s6 = upd_game newGameId (\<lambda>g. g\<lparr>currentColor :=
                   (if initialTopCardId \<ge> WILD_START then 0 else getCardColor initialTopCardId)\<rparr>) s5
        in Inr (newGameId, s6\<lparr>notStartedGames := notStartedGames s6 @ [newGameId]\<rparr>))"

text \<open>\<^verbatim>\<open>joinGame\<close>.\<close>

definition joinGame :: "env \<Rightarrow> nat \<Rightarrow> address \<Rightarrow> contract \<Rightarrow> error + contract" where
  "joinGame e gameId joinee s =
     (case validateGame s gameId NotStarted of Inl err \<Rightarrow> Inl err | Inr _ \<Rightarrow>
      let game = games s gameId in
      if \<not> length (players game) < MAX_PLAYERS then Inl GameFull
      else if \<not> msg_value e \<ge> inco_getFee e then Inl InsufficientFee
      else if joinee \<in> set (players game) then Inl AlreadyInGame
      else if \<not> deckIndex game + INITIAL_HAND_SIZE < DECK_SIZE then Inl NotEnoughCards
      else
        let s1 = upd_game gameId (\<lambda>g. g\<lparr>players := players g @ [joinee]\<rparr>) s;
            (s2, deckPos) = dealHandToPlayer gameId joinee (deck game) (deckIndex game) s1
        in Inr (upd_game gameId (\<lambda>g. g\<lparr>deckIndex := deckPos\<rparr>) s2))"

text \<open>\<^verbatim>\<open>startGame\<close>.\<close>

definition startGame :: "env \<Rightarrow> nat \<Rightarrow> contract \<Rightarrow> error + contract" where
  "startGame e gameId s =
     (case validateGame s gameId NotStarted of Inl err \<Rightarrow> Inl err | Inr _ \<Rightarrow>
      if \<not> length (players (games s gameId)) \<ge> 2 then Inl NeedAtLeastTwoPlayers
      else
        let s1 = upd_game gameId (\<lambda>g. g\<lparr>status := Started\<rparr>) s;
            s2 = removeFromNotStartedGames gameId s1
        in Inr (s2\<lparr>activeGames := activeGames s2 @ [gameId]\<rparr>))"

section \<open>ConfidentialUnoGame: play\<close>

text \<open>
  \<^verbatim>\<open>_removeCardFromHand\<close>, with its three branches. It is only called with
  \<open>cardIndex < handSize\<close> and \<open>handSize \<ge> 2\<close>.
\<close>

definition removeCardFromHand :: "elist \<Rightarrow> nat \<Rightarrow> nat \<Rightarrow> elist" where
  "removeCardFromHand currentHand cardIndex handSize =
     (if cardIndex = 0 then slice currentHand 1 handSize
      else if cardIndex = handSize - 1 then slice currentHand 0 cardIndex
      else
        let leftPart = slice currentHand 0 cardIndex;
            rightPart = slice currentHand (cardIndex + 1) handSize
        in leftPart @ rightPart)"

text \<open>\<^verbatim>\<open>_applyCardEffect\<close>.\<close>

definition applyCardEffect :: "nat \<Rightarrow> nat \<Rightarrow> contract \<Rightarrow> contract" where
  "applyCardEffect gameId cardType s =
     upd_game gameId (\<lambda>game.
       if cardType = CARD_TYPE_SKIP then game\<lparr>skipNextPlayer := True\<rparr>
       else if cardType = CARD_TYPE_REVERSE then
         let game1 = game\<lparr>direction := - direction game\<rparr>
         in if length (players game1) = 2 then game1\<lparr>skipNextPlayer := True\<rparr> else game1
       else if cardType = CARD_TYPE_DRAW_TWO then
         game\<lparr>pendingDraws := 2, skipNextPlayer := True\<rparr>
       else if cardType = CARD_TYPE_WILD_DRAW_FOUR then
         game\<lparr>pendingDraws := 4, skipNextPlayer := True\<rparr>
       else game) s"

text \<open>\<^verbatim>\<open>_reshuffleFromDiscards\<close>.\<close>

definition reshuffleFromDiscards :: "env \<Rightarrow> nat \<Rightarrow> contract \<Rightarrow> error + contract" where
  "reshuffleFromDiscards e gameId s =
     (let game = games s gameId; movesCount = length (moves game) in
      if \<not> movesCount \<ge> 2 then Inl NoCardsLeftToReshuffle
      else
        let cardsToShuffle = slice (moves game) 0 (movesCount - 1);
            newDeck = ePreview_shuffle e cardsToShuffle;
            newMoves = [] @ [topCard game]
        in Inr (upd_game gameId (\<lambda>g. g\<lparr>deck := newDeck, deckIndex := 0, moves := newMoves\<rparr>) s))"

text \<open>One iteration of the loop of \<^verbatim>\<open>_forceDrawCards\<close>.\<close>

definition forceDrawOne :: "env \<Rightarrow> nat \<Rightarrow> address \<Rightarrow> contract \<Rightarrow> error + contract" where
  "forceDrawOne e gameId player s =
     (case (if deckIndex (games s gameId) \<ge> length (deck (games s gameId))
            then reshuffleFromDiscards e gameId s else Inr s) of
        Inl err \<Rightarrow> Inl err
      | Inr s1 \<Rightarrow>
          let drawnCard = getEuint256 (deck (games s1 gameId)) (deckIndex (games s1 gameId));
              s2 = upd_game gameId (\<lambda>g. g\<lparr>deckIndex := deckIndex g + 1\<rparr>) s1;
              currentHand = playerHands s2 gameId player;
              newHand = currentHand @ [drawnCard]
          in Inr (set_hand gameId player newHand s2))"

fun forceDrawLoop :: "env \<Rightarrow> nat \<Rightarrow> address \<Rightarrow> nat \<Rightarrow> contract \<Rightarrow> error + contract" where
  "forceDrawLoop e gameId player 0 s = Inr s"
| "forceDrawLoop e gameId player (Suc n) s =
     (case forceDrawOne e gameId player s of
        Inl err \<Rightarrow> Inl err
      | Inr s1 \<Rightarrow> forceDrawLoop e gameId player n s1)"

text \<open>\<^verbatim>\<open>_forceDrawCards\<close>: the loop, then the reset of the two UNO flags of the player.\<close>

definition forceDrawCards :: "env \<Rightarrow> nat \<Rightarrow> address \<Rightarrow> nat \<Rightarrow> contract \<Rightarrow> error + contract" where
  "forceDrawCards e gameId player numCards s =
     (case forceDrawLoop e gameId player numCards s of
        Inl err \<Rightarrow> Inl err
      | Inr s1 \<Rightarrow>
          Inr (set_unoPenaltyApplied gameId player False (set_hasCalledUno gameId player False s1)))"

text \<open>
  The block "move to next player" that \<^verbatim>\<open>_advanceToNextPlayer\<close> runs once or twice.
  A modulus or a subtraction on zero players panics.
\<close>

definition nextPlayerIndex :: "Game \<Rightarrow> nat \<Rightarrow> error + nat" where
  "nextPlayerIndex game numPlayers =
     (if direction game = 1 then
        (if numPlayers = 0 then Inl Panic
         else Inr ((currentPlayerIndex game + 1) mod numPlayers))
      else if currentPlayerIndex game = 0 then
        (if numPlayers = 0 then Inl Panic else Inr (numPlayers - 1))
      else Inr (currentPlayerIndex game - 1))"

text \<open>The branch of \<^verbatim>\<open>_advanceToNextPlayer\<close> taken when \<open>skipNextPlayer\<close> is set.\<close>

definition skipAndDraw :: "env \<Rightarrow> nat \<Rightarrow> nat \<Rightarrow> contract \<Rightarrow> error + contract" where
  "skipAndDraw e gameId numPlayers s =
     (let game = games s gameId in
      if \<not> currentPlayerIndex game < length (players game) then Inl Panic
      else
        let skippedPlayer = players game ! currentPlayerIndex game;
            s1 = upd_game gameId (\<lambda>g. g\<lparr>skipNextPlayer := False\<rparr>) s
        in case (if pendingDraws (games s1 gameId) > 0
                 then (case forceDrawCards e gameId skippedPlayer (pendingDraws (games s1 gameId)) s1 of
                         Inl err \<Rightarrow> Inl err
                       | Inr s2 \<Rightarrow> Inr (upd_game gameId (\<lambda>g. g\<lparr>pendingDraws := 0\<rparr>) s2))
                 else Inr s1) of
             Inl err \<Rightarrow> Inl err
           | Inr s3 \<Rightarrow>
               (case nextPlayerIndex (games s3 gameId) numPlayers of
                  Inl err \<Rightarrow> Inl err
                | Inr i \<Rightarrow> Inr (upd_game gameId (\<lambda>g. g\<lparr>currentPlayerIndex := i\<rparr>) s3)))"

text \<open>
  \<^verbatim>\<open>_advanceToNextPlayer\<close>. The final event reads \<open>players[currentPlayerIndex]\<close>, which
  panics out of range.
\<close>

definition advanceToNextPlayer :: "env \<Rightarrow> nat \<Rightarrow> contract \<Rightarrow> error + contract" where
  "advanceToNextPlayer e gameId s =
     (let numPlayers = length (players (games s gameId)) in
      case nextPlayerIndex (games s gameId) numPlayers of
        Inl err \<Rightarrow> Inl err
      | Inr i \<Rightarrow>
          let s1 = upd_game gameId (\<lambda>g. g\<lparr>currentPlayerIndex := i\<rparr>) s in
          case (if skipNextPlayer (games s1 gameId) then skipAndDraw e gameId numPlayers s1
                else Inr s1) of
            Inl err \<Rightarrow> Inl err
          | Inr s2 \<Rightarrow>
              if currentPlayerIndex (games s2 gameId) < length (players (games s2 gameId))
              then Inr s2 else Inl Panic)"

text \<open>
  The state changes of \<^verbatim>\<open>commitMove\<close> after its last \<^verbatim>\<open>require\<close> and before the win
  check: the card at \<open>cardIndex\<close> leaves the hand, the window may open, the two UNO flags
  of the caller are reset, the top card and colour are set from the revealed id, the
  card is appended to \<open>moves\<close>, and the effect of the revealed type is applied.
\<close>

definition playCard :: "env \<Rightarrow> nat \<Rightarrow> nat \<Rightarrow> nat \<Rightarrow> nat \<Rightarrow> contract \<Rightarrow> contract" where
  "playCard e gameId cardIndex revealedCardId chosenColor s =
     (let currentHand = playerHands s gameId (msg_sender e);
          handSize = length currentHand;
          cardType = getCardType revealedCardId;
          playedCard = getEuint256 currentHand cardIndex;
          newHand = (if handSize = 1 then []
                     else removeCardFromHand currentHand cardIndex handSize);
          newHandSize = length newHand;
          s1 = set_hand gameId (msg_sender e) newHand s;
          s2 = (if handSize = 2 \<and> newHandSize = 1
                then (if \<not> hasCalledUno s1 gameId (msg_sender e)
                      then set_unoWindowPlayer gameId (msg_sender e)
                             (set_unoWindowOpen gameId True s1)
                      else s1)
                else s1);
          s3 = set_unoPenaltyApplied gameId (msg_sender e) False
                 (set_hasCalledUno gameId (msg_sender e) False s2);
          s4 = upd_game gameId (\<lambda>g. g\<lparr>topCard := playedCard, topCardId := revealedCardId\<rparr>) s3;
          s5 = upd_game gameId (\<lambda>g. g\<lparr>currentColor :=
                 (if cardType = CARD_TYPE_WILD \<or> cardType = CARD_TYPE_WILD_DRAW_FOUR
                  then chosenColor else getCardColor revealedCardId)\<rparr>) s4;
          s6 = upd_game gameId (\<lambda>g. g\<lparr>moves := moves g @ [playedCard]\<rparr>) s5
      in applyCardEffect gameId cardType s6)"

text \<open>
  The end of \<^verbatim>\<open>commitMove\<close>: with an empty new hand the game ends and the function
  returns; otherwise the turn advances.
\<close>

definition commitMove_body :: "env \<Rightarrow> nat \<Rightarrow> nat \<Rightarrow> nat \<Rightarrow> nat \<Rightarrow> contract \<Rightarrow> error + contract" where
  "commitMove_body e gameId cardIndex revealedCardId chosenColor s =
     (let s7 = playCard e gameId cardIndex revealedCardId chosenColor s;
          newHandSize = length (playerHands s7 gameId (msg_sender e))
      in if newHandSize = 0 then
           Inr (removeFromActiveGames gameId
                  (upd_game gameId (\<lambda>g. g\<lparr>status := Ended, endTime := block_timestamp e,
                     winner := msg_sender e\<rparr>) s7))
         else advanceToNextPlayer e gameId s7)"

text \<open>The two window-closing statements at the start of \<^verbatim>\<open>commitMove\<close>.\<close>

definition closeWindowOnPlay :: "env \<Rightarrow> nat \<Rightarrow> contract \<Rightarrow> contract" where
  "closeWindowOnPlay e gameId s =
     (let s1 = (if unoWindowOpen s gameId \<and> unoWindowPlayer s gameId \<noteq> msg_sender e
                then set_unoWindowOpen gameId False s else s)
      in if unoWindowOpen s1 gameId \<and> unoWindowPlayer s1 gameId = msg_sender e
         then set_unoWindowOpen gameId False s1 else s1)"

text \<open>\<^verbatim>\<open>commitMove\<close>.\<close>

definition commitMove :: "env \<Rightarrow> nat \<Rightarrow> nat \<Rightarrow> nat \<Rightarrow> nat \<Rightarrow> contract \<Rightarrow> error + contract" where
  "commitMove e gameId cardIndex revealedCardId chosenColor s =
     (case validateGame s gameId Started of Inl err \<Rightarrow> Inl err | Inr _ \<Rightarrow>
      case onlyPlayer e s gameId of Inl err \<Rightarrow> Inl err | Inr _ \<Rightarrow>
      if \<not> msg_value e \<ge> inco_getFee e * 2 then Inl FeeRequired
      else
        let game = games s gameId in
        if \<not> currentPlayerIndex game < length (players game) then Inl Panic
        else if players game ! currentPlayerIndex game \<noteq> msg_sender e then Inl NotYourTurn
        else if \<not> chosenColor \<le> 3 then Inl InvalidColor
        else if \<not> revealedCardId < DECK_SIZE then Inl InvalidCardID
        else
          let s1 = closeWindowOnPlay e gameId s;
              currentHand = playerHands s1 gameId (msg_sender e);
              handSize = length currentHand
          in if \<not> cardIndex < handSize then Inl CardIndexOutOfBounds
             else if \<not> isCardPlayableInternal revealedCardId (topCardId game) (currentColor game)
               then Inl CardNotPlayable
             else commitMove_body e gameId cardIndex revealedCardId chosenColor s1)"

text \<open>
  \<^verbatim>\<open>callUno\<close>. It is the one action that is not \<^verbatim>\<open>payable\<close>: a call that carries value
  reverts, without a reason string, before the modifiers run (\<open>NonPayableCall\<close>).
\<close>

definition callUno :: "env \<Rightarrow> nat \<Rightarrow> contract \<Rightarrow> error + contract" where
  "callUno e gameId s =
     (if msg_value e \<noteq> 0 then Inl NonPayableCall else
      case validateGame s gameId Started of Inl err \<Rightarrow> Inl err | Inr _ \<Rightarrow>
      case onlyPlayer e s gameId of Inl err \<Rightarrow> Inl err | Inr _ \<Rightarrow>
      let handSize = length (playerHands s gameId (msg_sender e)) in
      if \<not> handSize = 2 then Inl MustHaveTwoCardsToCallUno
      else Inr (set_hasCalledUno gameId (msg_sender e) True s))"

text \<open>\<^verbatim>\<open>penalizeUno\<close>.\<close>

definition penalizeUno :: "env \<Rightarrow> nat \<Rightarrow> address \<Rightarrow> contract \<Rightarrow> error + contract" where
  "penalizeUno e gameId target s =
     (case validateGame s gameId Started of Inl err \<Rightarrow> Inl err | Inr _ \<Rightarrow>
      case onlyPlayer e s gameId of Inl err \<Rightarrow> Inl err | Inr _ \<Rightarrow>
      if \<not> msg_sender e \<noteq> target then Inl CannotPenalizeYourself
      else if \<not> msg_value e \<ge> inco_getFee e * 2 then Inl FeeRequiredForPenalty
      else if \<not> unoWindowOpen s gameId then Inl ChallengeWindowNotOpen
      else if \<not> unoWindowPlayer s gameId = target then Inl TargetNotInChallengeWindow
      else if \<not> \<not> unoPenaltyApplied s gameId target then Inl PenaltyAlreadyApplied
      else
        let s1 = set_unoWindowOpen gameId False s;
            s2 = set_unoPenaltyApplied gameId target True s1
        in forceDrawCards e gameId target 2 s2)"

text \<open>The two window-closing statements of \<^verbatim>\<open>drawCard\<close>.\<close>

definition closeWindowOnDraw :: "env \<Rightarrow> nat \<Rightarrow> contract \<Rightarrow> contract" where
  "closeWindowOnDraw e gameId s =
     (let s1 = (if unoWindowOpen s gameId \<and> unoWindowPlayer s gameId = msg_sender e
                then set_unoWindowOpen gameId False s else s)
      in if unoWindowOpen s1 gameId \<and> unoWindowPlayer s1 gameId \<noteq> msg_sender e
         then set_unoWindowOpen gameId False s1 else s1)"

text \<open>\<^verbatim>\<open>drawCard\<close>.\<close>

definition drawCard :: "env \<Rightarrow> nat \<Rightarrow> bool \<Rightarrow> contract \<Rightarrow> error + contract" where
  "drawCard e gameId endTurn s =
     (case validateGame s gameId Started of Inl err \<Rightarrow> Inl err | Inr _ \<Rightarrow>
      case onlyPlayer e s gameId of Inl err \<Rightarrow> Inl err | Inr _ \<Rightarrow>
      if \<not> msg_value e \<ge> inco_getFee e then Inl FeeRequired
      else
        let game = games s gameId in
        if \<not> currentPlayerIndex game < length (players game) then Inl Panic
        else if players game ! currentPlayerIndex game \<noteq> msg_sender e then Inl NotYourTurn
        else
          case (if deckIndex game \<ge> length (deck game)
                then reshuffleFromDiscards e gameId s else Inr s) of
            Inl err \<Rightarrow> Inl err
          | Inr s1 \<Rightarrow>
              let s2 = closeWindowOnDraw e gameId s1;
                  drawnCard = getEuint256 (deck (games s2 gameId)) (deckIndex (games s2 gameId));
                  s3 = upd_game gameId (\<lambda>g. g\<lparr>deckIndex := deckIndex g + 1\<rparr>) s2;
                  currentHand = playerHands s3 gameId (msg_sender e);
                  newHand = currentHand @ [drawnCard];
                  s4 = set_hand gameId (msg_sender e) newHand s3
              in if endTurn then advanceToNextPlayer e gameId s4 else Inr s4)"

section \<open>Transactions\<close>

text \<open>
  The public action surface. A transaction that reverts leaves the storage as it was;
  one that succeeds installs the storage it returns.
\<close>

datatype action =
    CreateGame address nat
  | JoinGame nat address
  | StartGame nat
  | CommitMove nat nat nat nat
  | CallUno nat
  | PenalizeUno nat address
  | DrawCard nat bool

fun perform :: "env \<Rightarrow> action \<Rightarrow> contract \<Rightarrow> error + contract" where
  "perform e (CreateGame creator initialTopCardId) s =
     (case createGame e creator initialTopCardId s of
        Inl err \<Rightarrow> Inl err | Inr (newGameId, s1) \<Rightarrow> Inr s1)"
| "perform e (JoinGame gameId joinee) s = joinGame e gameId joinee s"
| "perform e (StartGame gameId) s = startGame e gameId s"
| "perform e (CommitMove gameId cardIndex revealedCardId chosenColor) s =
     commitMove e gameId cardIndex revealedCardId chosenColor s"
| "perform e (CallUno gameId) s = callUno e gameId s"
| "perform e (PenalizeUno gameId target) s = penalizeUno e gameId target s"
| "perform e (DrawCard gameId endTurn) s = drawCard e gameId endTurn s"

definition transact :: "env \<Rightarrow> action \<Rightarrow> contract \<Rightarrow> contract" where
  "transact e a s = (case perform e a s of Inl err \<Rightarrow> s | Inr s1 \<Rightarrow> s1)"

fun perform_all :: "(env \<times> action) list \<Rightarrow> contract \<Rightarrow> error + contract" where
  "perform_all [] s = Inr s"
| "perform_all ((e, a) # rest) s =
     (case perform e a s of Inl err \<Rightarrow> Inl err | Inr s1 \<Rightarrow> perform_all rest s1)"

text \<open>The storage of a freshly deployed contract: every slot is zero.\<close>

definition emptyGame :: Game where
  "emptyGame = \<lparr>id_game = 0, players = [], status = NotStarted, startTime = 0, endTime = 0,
     deck = [], moves = [], topCard = 0, topCardId = 0, deckIndex = 0,
     currentPlayerIndex = 0, direction = 0, currentColor = 0, winner = 0,
     pendingDraws = 0, skipNextPlayer = False\<rparr>"

definition deployed :: contract where
  "deployed = \<lparr>gameIdCounter = 0, activeGames = [], notStartedGames = [],
     games = (\<lambda>_. emptyGame), playerHands = (\<lambda>_ _. []), hasCalledUno = (\<lambda>_ _. False),
     unoPenaltyApplied = (\<lambda>_ _. False), unoWindowOpen = (\<lambda>_. False),
     unoWindowPlayer = (\<lambda>_. 0)\<rparr>"

text \<open>
  The random operations return permutations: \<^verbatim>\<open>shuffledRange(0, DECK_SIZE)\<close> one of the
  108 ids, \<^verbatim>\<open>shuffle\<close> one of its argument.
\<close>

definition fair_env :: "env \<Rightarrow> bool" where
  "fair_env e \<longleftrightarrow>
     mset (ePreview_shuffledRange e) = mset [0..<DECK_SIZE] \<and>
     (\<forall>xs. mset (ePreview_shuffle e xs) = mset xs)"

inductive reachable :: "contract \<Rightarrow> bool" where
  init: "reachable deployed"
| step: "reachable s \<Longrightarrow> fair_env e \<Longrightarrow> reachable (transact e a s)"

section \<open>Preconditions\<close>

text \<open>
  The preconditions of each action as the specification lists them (status, membership,
  turn, hand index, playability, colour, challenge), each paired with the error that
  names its violation, in the order in which the action checks them. \<open>first_failed\<close> is
  the error of the first precondition that does not hold.
\<close>

fun first_failed :: "(bool \<times> error) list \<Rightarrow> error option" where
  "first_failed [] = None"
| "first_failed ((holds, err) # rest) = (if holds then first_failed rest else Some err)"

fun preconditions :: "env \<Rightarrow> action \<Rightarrow> contract \<Rightarrow> (bool \<times> error) list" where
  "preconditions e (CreateGame creator initialTopCardId) s =
     [(inco_getFee e * 2 \<le> msg_value e, InsufficientFee),
      (initialTopCardId < DECK_SIZE, InvalidInitialCardID)]"
| "preconditions e (JoinGame gameId joinee) s =
     [(0 < gameId \<and> gameId \<le> gameIdCounter s, InvalidGameID),
      (status (games s gameId) = NotStarted, NotInRequiredStatus),
      (length (players (games s gameId)) < MAX_PLAYERS, GameFull),
      (inco_getFee e \<le> msg_value e, InsufficientFee),
      (joinee \<notin> set (players (games s gameId)), AlreadyInGame),
      (deckIndex (games s gameId) + INITIAL_HAND_SIZE < DECK_SIZE, NotEnoughCards)]"
| "preconditions e (StartGame gameId) s =
     [(0 < gameId \<and> gameId \<le> gameIdCounter s, InvalidGameID),
      (status (games s gameId) = NotStarted, NotInRequiredStatus),
      (2 \<le> length (players (games s gameId)), NeedAtLeastTwoPlayers)]"
| "preconditions e (CommitMove gameId cardIndex revealedCardId chosenColor) s =
     [(0 < gameId \<and> gameId \<le> gameIdCounter s, InvalidGameID),
      (status (games s gameId) = Started, NotInRequiredStatus),
      (msg_sender e \<in> set (players (games s gameId)), NotAPlayer),
      (inco_getFee e * 2 \<le> msg_value e, FeeRequired),
      (players (games s gameId) ! currentPlayerIndex (games s gameId) = msg_sender e, NotYourTurn),
      (chosenColor \<le> 3, InvalidColor),
      (revealedCardId < DECK_SIZE, InvalidCardID),
      (cardIndex < length (playerHands s gameId (msg_sender e)), CardIndexOutOfBounds),
      (isCardPlayableInternal revealedCardId (topCardId (games s gameId))
         (currentColor (games s gameId)), CardNotPlayable)]"
| "preconditions e (CallUno gameId) s =
     [(msg_value e = 0, NonPayableCall),
      (0 < gameId \<and> gameId \<le> gameIdCounter s, InvalidGameID),
      (status (games s gameId) = Started, NotInRequiredStatus),
      (msg_sender e \<in> set (players (games s gameId)), NotAPlayer),
      (length (playerHands s gameId (msg_sender e)) = 2, MustHaveTwoCardsToCallUno)]"
| "preconditions e (PenalizeUno gameId target) s =
     [(0 < gameId \<and> gameId \<le> gameIdCounter s, InvalidGameID),
      (status (games s gameId) = Started, NotInRequiredStatus),
      (msg_sender e \<in> set (players (games s gameId)), NotAPlayer),
      (msg_sender e \<noteq> target, CannotPenalizeYourself),
      (inco_getFee e * 2 \<le> msg_value e, FeeRequiredForPenalty),
      (unoWindowOpen s gameId, ChallengeWindowNotOpen),
      (unoWindowPlayer s gameId = target, TargetNotInChallengeWindow),
      (\<not> unoPenaltyApplied s gameId target, PenaltyAlreadyApplied)]"
| "preconditions e (DrawCard gameId endTurn) s =
     [(0 < gameId \<and> gameId \<le> gameIdCounter s, InvalidGameID),
      (status (games s gameId) = Started, NotInRequiredStatus),
      (msg_sender e \<in> set (players (games s gameId)), NotAPlayer),
      (inco_getFee e \<le> msg_value e, FeeRequired),
      (players (games s gameId) ! currentPlayerIndex (games s gameId) = msg_sender e, NotYourTurn)]"

text \<open>The storage after a list of transactions.\<close>

fun play :: "(env \<times> action) list \<Rightarrow> contract \<Rightarrow> contract" where
  "play [] s = s"
| "play ((e, a) # rest) s = play rest (transact e a s)"

section \<open>Well-formed storage\<close>

text \<open>
  What every game of a reachable storage satisfies: the players are distinct; a game that
  has started has at least two; while a game has not ended, no draws are pending and no
  skip is set between transactions; the turn cursor points into the player list (or is 0);
  the top
  card is the last card of a non-empty \<open>moves\<close>; and no penalty flag is set between
  transactions.
\<close>

definition top_is_last :: "contract \<Rightarrow> bool" where
  "top_is_last s \<longleftrightarrow>
     (\<forall>g. moves (games s g) \<noteq> [] \<longrightarrow> topCard (games s g) = last (moves (games s g)))"

definition game_ok :: "contract \<Rightarrow> nat \<Rightarrow> bool" where
  "game_ok s g \<longleftrightarrow>
     distinct (players (games s g)) \<and>
     (status (games s g) \<noteq> NotStarted \<longrightarrow> 2 \<le> length (players (games s g))) \<and>
     (status (games s g) \<noteq> Ended \<longrightarrow>
        pendingDraws (games s g) = 0 \<and> \<not> skipNextPlayer (games s g)) \<and>
     (currentPlayerIndex (games s g) < length (players (games s g)) \<or>
        currentPlayerIndex (games s g) = 0) \<and>
     (moves (games s g) \<noteq> [] \<longrightarrow> topCard (games s g) = last (moves (games s g))) \<and>
     (\<forall>p. \<not> unoPenaltyApplied s g p)"

definition well_formed :: "contract \<Rightarrow> bool" where
  "well_formed s \<longleftrightarrow> (\<forall>g. game_ok s g)"

section \<open>Auxiliary notions\<close>

text \<open>
  The storage \<open>s\<close> with the draw pile, the moves and the cursor of one game and the hand
  of one player replaced.
\<close>

definition after_draws :: "nat \<Rightarrow> address \<Rightarrow> elist \<Rightarrow> nat \<Rightarrow> elist \<Rightarrow> elist \<Rightarrow> contract \<Rightarrow> contract" where
  "after_draws gameId player dk di mv hand s =
     set_hand gameId player hand
       (upd_game gameId (\<lambda>g. g\<lparr>deck := dk, moves := mv, deckIndex := di\<rparr>) s)"

text \<open>
  Concrete inputs. \<open>caller a\<close> is a transaction sent by \<open>a\<close> with the fees paid, in which
  \<^verbatim>\<open>shuffledRange\<close> yields the ids in ascending order and \<^verbatim>\<open>shuffle\<close> reverses its
  argument; \<open>free_caller a\<close> is the same transaction sent without value. \<open>table h1 h2\<close> is the storage holding one started game, number 1, between the
  addresses 1 (to move, holding \<open>h1\<close>) and 2 (holding \<open>h2\<close>), on a red 7.
\<close>

definition sortedDeck :: elist where
  "sortedDeck = 0 # 1 # [2..<108]"

definition caller :: "address \<Rightarrow> env" where
  "caller a = \<lparr>msg_sender = a, msg_value = 2, block_timestamp = 0, inco_getFee = 1,
     ePreview_shuffledRange = sortedDeck, ePreview_shuffle = rev\<rparr>"

definition free_caller :: "address \<Rightarrow> env" where
  "free_caller a = \<lparr>msg_sender = a, msg_value = 0, block_timestamp = 0, inco_getFee = 1,
     ePreview_shuffledRange = sortedDeck, ePreview_shuffle = rev\<rparr>"

definition table :: "elist \<Rightarrow> elist \<Rightarrow> contract" where
  "table h1 h2 = \<lparr>gameIdCounter = 1, activeGames = [1], notStartedGames = [],
     games = (\<lambda>_. emptyGame)(1 := \<lparr>id_game = 1, players = [1, 2], status = Started,
       startTime = 0, endTime = 0, deck = sortedDeck, moves = [], topCard = 7, topCardId = 7,
       deckIndex = 15, currentPlayerIndex = 0, direction = 1, currentColor = 0, winner = 0,
       pendingDraws = 0, skipNextPlayer = False\<rparr>),
     playerHands = (\<lambda>_ _. [])(1 := (\<lambda>_. [])(1 := h1, 2 := h2)),
     hasCalledUno = (\<lambda>_ _. False), unoPenaltyApplied = (\<lambda>_ _. False),
     unoWindowOpen = (\<lambda>_. False), unoWindowPlayer = (\<lambda>_. 0)\<rparr>"

text \<open>
  Games played from the deployed contract. \<open>lobby\<close> creates game 1 on a red 7, lets
  address 2 join and starts it; address 1 then holds the ids 0 to 6, address 2 the ids 8
  to 14, and id 7 is the encrypted top card. In \<open>first_play\<close> address 1 then plays its
  red 0. In \<open>pile_out\<close> address 1 instead draws the 93 cards of the pile, keeping the
  turn. In \<open>rounds\<close> address 1 plays its reds 0 to 4 while address 2 draws and passes;
  \<open>vulnerable\<close> ends with address 1 to move on two cards, \<open>exposed\<close> with its play of the
  red 5 without a declaration, \<open>declared\<close> with its declaration instead, sent without
  value, followed in \<open>declared_draw\<close> by a draw. In \<open>starving\<close> address 2 draws the pile out, through one
  reshuffle, before it passes; in \<open>starved\<close> address 1 then plays its red 5 without
  declaring.
\<close>

definition lobby :: "(env \<times> action) list" where
  "lobby = [(caller 1, CreateGame 1 7), (caller 2, JoinGame 1 2), (caller 1, StartGame 1)]"

definition first_play :: "(env \<times> action) list" where
  "first_play = lobby @ [(caller 1, CommitMove 1 0 0 0)]"

definition pile_out :: "(env \<times> action) list" where
  "pile_out = lobby @ replicate 93 (caller 1, DrawCard 1 False)"

definition rounds :: "(env \<times> action) list" where
  "rounds =
    [(caller 1, CommitMove 1 0 0 0), (caller 2, DrawCard 1 True),
     (caller 1, CommitMove 1 0 1 0), (caller 2, DrawCard 1 True),
     (caller 1, CommitMove 1 0 2 0), (caller 2, DrawCard 1 True),
     (caller 1, CommitMove 1 0 3 0), (caller 2, DrawCard 1 True),
     (caller 1, CommitMove 1 0 4 0)]"

definition vulnerable :: "(env \<times> action) list" where
  "vulnerable = lobby @ rounds @ [(caller 2, DrawCard 1 True)]"

definition exposed :: "(env \<times> action) list" where
  "exposed = vulnerable @ [(caller 1, CommitMove 1 0 5 0)]"

definition declared :: "(env \<times> action) list" where
  "declared = vulnerable @ [(free_caller 1, CallUno 1)]"

definition declared_draw :: "(env \<times> action) list" where
  "declared_draw = declared @ [(caller 1, DrawCard 1 False)]"

definition starving :: "(env \<times> action) list" where
  "starving = lobby @ rounds @ replicate 92 (caller 2, DrawCard 1 False) @
     [(caller 2, DrawCard 1 True)]"

definition starved :: "(env \<times> action) list" where
  "starved = starving @ [(caller 1, CommitMove 1 0 5 0)]"

text \<open>
  The cards a game accounts for: the hands of its players, the draw pile from the cursor
  on, the moves, and the top card where it is not among the moves.
\<close>

definition ledger :: "contract \<Rightarrow> nat \<Rightarrow> card multiset" where
  "ledger s g =
     mset (concat (map (playerHands s g) (players (games s g)))) +
     mset (drop (deckIndex (games s g)) (deck (games s g))) +
     mset (moves (games s g)) +
     (if topCard (games s g) \<in> set (moves (games s g)) then {#} else {#topCard (games s g)#})"

section \<open>Codec lemmas\<close>

lemmas band_defs =
  DECK_SIZE_def NUMBER_CARDS_END_def SKIP_START_def SKIP_END_def REVERSE_START_def
  REVERSE_END_def DRAW_TWO_START_def DRAW_TWO_END_def WILD_START_def WILD_END_def
  WILD_DRAW_FOUR_START_def WILD_DRAW_FOUR_END_def

lemmas type_defs =
  CARD_TYPE_NUMBER_def CARD_TYPE_SKIP_def CARD_TYPE_REVERSE_def CARD_TYPE_DRAW_TWO_def
  CARD_TYPE_WILD_def CARD_TYPE_WILD_DRAW_FOUR_def



lemma number_band:
  "cardId < 76 \<Longrightarrow>
     getCardType cardId = CARD_TYPE_NUMBER \<and> getCardColor cardId = cardId div 19 \<and>
     getCardValue cardId = (if cardId mod 19 \<le> 9 then cardId mod 19 else cardId mod 19 - 9)"
  by (simp add: getCardType_def getCardColor_def getCardValue_def band_defs Let_def)

lemma special_bands:
  "76 \<le> cardId \<Longrightarrow> cardId < 100 \<Longrightarrow>
     getCardType cardId =
       (if cardId < 84 then CARD_TYPE_SKIP else if cardId < 92 then CARD_TYPE_REVERSE
        else CARD_TYPE_DRAW_TWO) \<and>
     getCardColor cardId =
       (cardId - (if cardId < 84 then 76 else if cardId < 92 then 84 else 92)) div 2 \<and>
     getCardColor cardId < 4"
  by (auto simp add: getCardType_def getCardColor_def band_defs)

lemma wild_bands:
  "100 \<le> cardId \<Longrightarrow>
     getCardType cardId = (if cardId < 104 then CARD_TYPE_WILD else CARD_TYPE_WILD_DRAW_FOUR) \<and>
     getCardColor cardId = 4"
  by (simp add: getCardType_def getCardColor_def band_defs)

lemma rankCount_table:
  "c < 4 \<Longrightarrow> r \<le> 9 \<Longrightarrow> rankCount c r = (if r = 0 then 1 else 2)"
proof -
  assume c: "c < 4" and r: "r \<le> 9"
  from c have cs: "c = 0 \<or> c = 1 \<or> c = 2 \<or> c = 3" by arith
  from r have rs: "r = 0 \<or> r = 1 \<or> r = 2 \<or> r = 3 \<or> r = 4 \<or> r = 5 \<or> r = 6 \<or> r = 7 \<or> r = 8 \<or> r = 9"
    by arith
  have tab: "\<forall>c' \<in> set [0..<4]. \<forall>r' \<in> set [0..<10]. rankCount c' r' = (if r' = 0 then 1 else 2)"
    by code_simp
  from c r tab show ?thesis by auto
qed

text \<open>
  C9. For every id in \<open>[0,108)\<close> the decode functions realise the band layout: Number in
  \<open>[0,76)\<close> with colour \<open>id div 19\<close> and the rank taken from \<open>id mod 19\<close> (0 once, 1 to 9
  twice per colour), Skip in \<open>[76,84)\<close>, Reverse in \<open>[84,92)\<close>, DrawTwo in \<open>[92,100)\<close>, each
  with colour \<open>(id - bandStart) div 2\<close>, Wild in \<open>[100,104)\<close> and WildDrawFour in
  \<open>[104,108)\<close> with colour 4 (None); together with the five examples of the specification.
\<close>

theorem codec_bands:
  "(\<forall>cardId < DECK_SIZE.
      (cardId < 76 \<longrightarrow> getCardType cardId = CARD_TYPE_NUMBER \<and> getCardColor cardId = cardId div 19
          \<and> getCardColor cardId < 4
          \<and> getCardValue cardId = (if cardId mod 19 \<le> 9 then cardId mod 19 else cardId mod 19 - 9)
          \<and> getCardValue cardId \<le> 9) \<and>
      (76 \<le> cardId \<and> cardId < 84 \<longrightarrow> getCardType cardId = CARD_TYPE_SKIP
          \<and> getCardColor cardId = (cardId - 76) div 2 \<and> getCardColor cardId < 4) \<and>
      (84 \<le> cardId \<and> cardId < 92 \<longrightarrow> getCardType cardId = CARD_TYPE_REVERSE
          \<and> getCardColor cardId = (cardId - 84) div 2 \<and> getCardColor cardId < 4) \<and>
      (92 \<le> cardId \<and> cardId < 100 \<longrightarrow> getCardType cardId = CARD_TYPE_DRAW_TWO
          \<and> getCardColor cardId = (cardId - 92) div 2 \<and> getCardColor cardId < 4) \<and>
      (100 \<le> cardId \<and> cardId < 104 \<longrightarrow> getCardType cardId = CARD_TYPE_WILD
          \<and> getCardColor cardId = 4) \<and>
      (104 \<le> cardId \<longrightarrow> getCardType cardId = CARD_TYPE_WILD_DRAW_FOUR
          \<and> getCardColor cardId = 4)) \<and>
   (\<forall>c < 4. \<forall>r \<le> 9. rankCount c r = (if r = 0 then 1 else 2)) \<and>
   (getCardType 0, getCardColor 0, getCardValue 0) = (CARD_TYPE_NUMBER, 0, 0) \<and>
   (getCardType 75, getCardColor 75, getCardValue 75) = (CARD_TYPE_NUMBER, 3, 9) \<and>
   (getCardType 76, getCardColor 76) = (CARD_TYPE_SKIP, 0) \<and>
   (getCardType 100, getCardColor 100) = (CARD_TYPE_WILD, 4) \<and>
   (getCardType 104, getCardColor 104) = (CARD_TYPE_WILD_DRAW_FOUR, 4)"
proof -
  have bands: "\<forall>cardId < DECK_SIZE.
      (cardId < 76 \<longrightarrow> getCardType cardId = CARD_TYPE_NUMBER \<and> getCardColor cardId = cardId div 19
          \<and> getCardColor cardId < 4
          \<and> getCardValue cardId = (if cardId mod 19 \<le> 9 then cardId mod 19 else cardId mod 19 - 9)
          \<and> getCardValue cardId \<le> 9) \<and>
      (76 \<le> cardId \<and> cardId < 84 \<longrightarrow> getCardType cardId = CARD_TYPE_SKIP
          \<and> getCardColor cardId = (cardId - 76) div 2 \<and> getCardColor cardId < 4) \<and>
      (84 \<le> cardId \<and> cardId < 92 \<longrightarrow> getCardType cardId = CARD_TYPE_REVERSE
          \<and> getCardColor cardId = (cardId - 84) div 2 \<and> getCardColor cardId < 4) \<and>
      (92 \<le> cardId \<and> cardId < 100 \<longrightarrow> getCardType cardId = CARD_TYPE_DRAW_TWO
          \<and> getCardColor cardId = (cardId - 92) div 2 \<and> getCardColor cardId < 4) \<and>
      (100 \<le> cardId \<and> cardId < 104 \<longrightarrow> getCardType cardId = CARD_TYPE_WILD
          \<and> getCardColor cardId = 4) \<and>
      (104 \<le> cardId \<longrightarrow> getCardType cardId = CARD_TYPE_WILD_DRAW_FOUR
          \<and> getCardColor cardId = 4)"
  proof (intro allI impI)
    fix cardId :: nat
    assume "cardId < DECK_SIZE"
    have num: "cardId < 76 \<Longrightarrow> getCardColor cardId < 4 \<and> getCardValue cardId \<le> 9"
      by (simp add: getCardColor_def getCardValue_def band_defs Let_def) arith
    show "(cardId < 76 \<longrightarrow> getCardType cardId = CARD_TYPE_NUMBER \<and> getCardColor cardId = cardId div 19
          \<and> getCardColor cardId < 4
          \<and> getCardValue cardId = (if cardId mod 19 \<le> 9 then cardId mod 19 else cardId mod 19 - 9)
          \<and> getCardValue cardId \<le> 9) \<and>
      (76 \<le> cardId \<and> cardId < 84 \<longrightarrow> getCardType cardId = CARD_TYPE_SKIP
          \<and> getCardColor cardId = (cardId - 76) div 2 \<and> getCardColor cardId < 4) \<and>
      (84 \<le> cardId \<and> cardId < 92 \<longrightarrow> getCardType cardId = CARD_TYPE_REVERSE
          \<and> getCardColor cardId = (cardId - 84) div 2 \<and> getCardColor cardId < 4) \<and>
      (92 \<le> cardId \<and> cardId < 100 \<longrightarrow> getCardType cardId = CARD_TYPE_DRAW_TWO
          \<and> getCardColor cardId = (cardId - 92) div 2 \<and> getCardColor cardId < 4) \<and>
      (100 \<le> cardId \<and> cardId < 104 \<longrightarrow> getCardType cardId = CARD_TYPE_WILD
          \<and> getCardColor cardId = 4) \<and>
      (104 \<le> cardId \<longrightarrow> getCardType cardId = CARD_TYPE_WILD_DRAW_FOUR
          \<and> getCardColor cardId = 4)"
      using num number_band [of cardId] special_bands [of cardId] wild_bands [of cardId]
      by (cases "cardId < 76"; cases "cardId < 84"; cases "cardId < 92"; cases "cardId < 100";
          cases "cardId < 104"; simp)
  qed
  have ranks: "\<forall>c < 4. \<forall>r \<le> 9. rankCount c r = (if r = 0 then 1 else 2)"
    using rankCount_table by blast
  have examples:
    "(getCardType 0, getCardColor 0, getCardValue 0) = (CARD_TYPE_NUMBER, 0, 0)"
    "(getCardType 75, getCardColor 75, getCardValue 75) = (CARD_TYPE_NUMBER, 3, 9)"
    "(getCardType 76, getCardColor 76) = (CARD_TYPE_SKIP, 0)"
    "(getCardType 100, getCardColor 100) = (CARD_TYPE_WILD, 4)"
    "(getCardType 104, getCardColor 104) = (CARD_TYPE_WILD_DRAW_FOUR, 4)"
    by (simp_all add: getCardType_def getCardColor_def getCardValue_def band_defs type_defs)
  from bands ranks examples show ?thesis by blast
qed

theorem codec_bands_witness:
  "(75::nat) < DECK_SIZE \<and> (75::nat) < 76 \<and> getCardType 75 = CARD_TYPE_NUMBER \<and>
   getCardColor 75 = 3 \<and> getCardValue 75 = 9 \<and> (3::nat) < 4 \<and> (9::nat) \<le> 9 \<and>
   rankCount 3 9 = 2"
proof -
  have lt: "(75::nat) < DECK_SIZE" by (simp add: DECK_SIZE_def)
  from codec_bands have "\<forall>cardId < DECK_SIZE. cardId < 76 \<longrightarrow>
      getCardType cardId = CARD_TYPE_NUMBER \<and> getCardColor cardId = cardId div 19 \<and>
      getCardColor cardId < 4 \<and>
      getCardValue cardId = (if cardId mod 19 \<le> 9 then cardId mod 19 else cardId mod 19 - 9) \<and>
      getCardValue cardId \<le> 9"
    by blast
  with lt have a: "getCardType 75 = CARD_TYPE_NUMBER \<and> getCardColor 75 = 75 div 19 \<and>
      getCardValue 75 = (if (75::nat) mod 19 \<le> 9 then 75 mod 19 else 75 mod 19 - 9)"
    by simp
  from codec_bands have "\<forall>c < 4. \<forall>r \<le> 9. rankCount c r = (if r = 0 then 1 else 2)"
    by blast
  then have b: "rankCount 3 9 = 2" by simp
  from lt a b show ?thesis by simp
qed

section \<open>Cards, hands and turns: lemmas\<close>

lemmas helper_defs = upd_game_def set_hand_def set_hasCalledUno_def set_unoPenaltyApplied_def
  set_unoWindowOpen_def set_unoWindowPlayer_def removeFromActiveGames_def
  removeFromNotStartedGames_def

lemma slice_all: "slice xs 0 i = take i xs"
  by (simp add: slice_def)

lemma slice_to_end: "slice xs a (length xs) = drop a xs"
  by (simp add: slice_def)

lemma removeCardFromHand_eq:
  "cardIndex < length hand \<Longrightarrow>
     removeCardFromHand hand cardIndex (length hand) = take cardIndex hand @ drop (Suc cardIndex) hand"
proof -
  assume lt: "cardIndex < length hand"
  show ?thesis
  proof (cases "cardIndex = 0")
    case True
    then show ?thesis by (simp add: removeCardFromHand_def slice_to_end)
  next
    case False
    show ?thesis
    proof (cases "cardIndex = length hand - 1")
      case True
      with lt have "Suc cardIndex = length hand" by arith
      then have "drop (Suc cardIndex) hand = []" by simp
      with False True show ?thesis by (simp add: removeCardFromHand_def slice_all)
    next
      case notlast: False
      with False show ?thesis
        by (simp add: removeCardFromHand_def Let_def slice_all slice_to_end)
    qed
  qed
qed

lemma removeCardFromHand_first:
  "0 < length hand \<Longrightarrow> removeCardFromHand hand 0 (length hand) = tl hand"
  by (simp add: removeCardFromHand_def slice_def drop_Suc)

lemma removeCardFromHand_last:
  "2 \<le> length hand \<Longrightarrow> removeCardFromHand hand (length hand - 1) (length hand) = butlast hand"
  by (auto simp add: removeCardFromHand_def slice_def butlast_conv_take)

lemma removeCardFromHand_nth:
  "cardIndex < length hand \<Longrightarrow> j < length hand - 1 \<Longrightarrow>
     removeCardFromHand hand cardIndex (length hand) ! j =
       (if j < cardIndex then hand ! j else hand ! Suc j)"
  by (auto simp add: removeCardFromHand_eq nth_append min_def)

lemma reshuffle_fails:
  "length (moves (games s gameId)) < 2 \<Longrightarrow>
     reshuffleFromDiscards e gameId s = Inl NoCardsLeftToReshuffle"
  by (simp add: reshuffleFromDiscards_def Let_def)

lemma reshuffle_succeeds:
  "2 \<le> length (moves (games s gameId)) \<Longrightarrow>
     reshuffleFromDiscards e gameId s =
       Inr (upd_game gameId (\<lambda>g. g\<lparr>deck := ePreview_shuffle e (butlast (moves (games s gameId))),
              deckIndex := 0, moves := [topCard (games s gameId)]\<rparr>) s)"
  by (simp add: reshuffleFromDiscards_def Let_def slice_def butlast_conv_take upd_game_def)


lemma after_draws_twice:
  "after_draws g p dk2 di2 mv2 h2 (after_draws g p dk di mv h s) = after_draws g p dk2 di2 mv2 h2 s"
  by (simp add: after_draws_def helper_defs)

lemma forceDrawOne_shape:
  "forceDrawOne e g p s = Inr s1 \<Longrightarrow>
     s1 = after_draws g p (deck (games s1 g)) (deckIndex (games s1 g)) (moves (games s1 g))
            (playerHands s1 g p) s \<and>
     length (playerHands s1 g p) = length (playerHands s g p) + 1"
  unfolding forceDrawOne_def reshuffleFromDiscards_def
  by (auto simp add: Let_def after_draws_def helper_defs split: if_splits sum.splits)

lemma forceDrawOne_error:
  "forceDrawOne e g p s = Inl err \<Longrightarrow> err = NoCardsLeftToReshuffle"
  unfolding forceDrawOne_def reshuffleFromDiscards_def
  by (auto simp add: Let_def split: if_splits sum.splits)

lemma forceDrawLoop_shape:
  "forceDrawLoop e g p n s = Inr s1 \<Longrightarrow>
     s1 = after_draws g p (deck (games s1 g)) (deckIndex (games s1 g)) (moves (games s1 g))
            (playerHands s1 g p) s \<and>
     length (playerHands s1 g p) = length (playerHands s g p) + n"
proof (induction n arbitrary: s)
  case 0
  then show ?case by (simp add: after_draws_def helper_defs)
next
  case (Suc n)
  from Suc.prems obtain s2 where one: "forceDrawOne e g p s = Inr s2"
    and rest: "forceDrawLoop e g p n s2 = Inr s1"
    by (auto split: sum.splits)
  from forceDrawOne_shape [OF one] obtain dk di mv h
    where s2: "s2 = after_draws g p dk di mv h s"
      and l2: "length (playerHands s2 g p) = length (playerHands s g p) + 1" by blast
  from Suc.IH [OF rest] have
    s1: "s1 = after_draws g p (deck (games s1 g)) (deckIndex (games s1 g)) (moves (games s1 g))
            (playerHands s1 g p) s2"
    and len: "length (playerHands s1 g p) = length (playerHands s2 g p) + n" by blast+
  from s1 s2 have "s1 = after_draws g p (deck (games s1 g)) (deckIndex (games s1 g))
      (moves (games s1 g)) (playerHands s1 g p) s"
    by (metis after_draws_twice)
  with len l2 show ?case by simp
qed

lemma forceDrawLoop_error:
  "forceDrawLoop e g p n s = Inl err \<Longrightarrow> err = NoCardsLeftToReshuffle"
  by (induction n arbitrary: s) (auto split: sum.splits dest: forceDrawOne_error)

lemma forceDrawLoop_step:
  "0 < n \<Longrightarrow>
     forceDrawLoop e g p n s =
       (case forceDrawOne e g p s of
          Inl err \<Rightarrow> Inl err
        | Inr s1 \<Rightarrow> forceDrawLoop e g p (n - 1) s1)"
  by (cases n) (auto split: sum.splits)

lemma forceDrawLoop_enough:
  "deckIndex (games s g) + n \<le> length (deck (games s g)) \<Longrightarrow>
     forceDrawLoop e g p n s =
       Inr (after_draws g p (deck (games s g)) (deckIndex (games s g) + n) (moves (games s g))
              (playerHands s g p @ take n (drop (deckIndex (games s g)) (deck (games s g)))) s)"
proof (induction n arbitrary: s)
  case 0
  then show ?case by (simp add: after_draws_def helper_defs)
next
  case (Suc n)
  let ?gm = "games s g"
  from Suc.prems have lt: "deckIndex ?gm < length (deck ?gm)" by simp
  define s2 where "s2 = after_draws g p (deck ?gm) (deckIndex ?gm + 1) (moves ?gm)
      (playerHands s g p @ [deck ?gm ! deckIndex ?gm]) s"
  from lt have one: "forceDrawOne e g p s = Inr s2"
    by (simp add: forceDrawOne_def Let_def s2_def after_draws_def helper_defs getEuint256_def)
  have g2: "deck (games s2 g) = deck ?gm" "deckIndex (games s2 g) = deckIndex ?gm + 1"
    "moves (games s2 g) = moves ?gm"
    "playerHands s2 g p = playerHands s g p @ [deck ?gm ! deckIndex ?gm]"
    by (simp_all add: s2_def after_draws_def helper_defs)
  from Suc.prems g2 have "deckIndex (games s2 g) + n \<le> length (deck (games s2 g))" by simp
  from Suc.IH [OF this] g2 have
    "forceDrawLoop e g p n s2 = Inr (after_draws g p (deck ?gm) (deckIndex ?gm + 1 + n) (moves ?gm)
       ((playerHands s g p @ [deck ?gm ! deckIndex ?gm]) @ take n (drop (deckIndex ?gm + 1) (deck ?gm))) s2)"
    by simp
  moreover from lt have "take (Suc n) (drop (deckIndex ?gm) (deck ?gm)) =
      deck ?gm ! deckIndex ?gm # take n (drop (deckIndex ?gm + 1) (deck ?gm))"
    by (simp add: Cons_nth_drop_Suc [symmetric])
  ultimately show ?case using one
    by (simp add: s2_def after_draws_twice)
qed


lemma forceDrawCards_error:
  "forceDrawCards e g p n s = Inl err \<Longrightarrow> err = NoCardsLeftToReshuffle"
  by (auto simp add: forceDrawCards_def split: sum.splits dest: forceDrawLoop_error)

lemma forceDrawCards_fields:
  assumes "forceDrawCards e g p n s = Inr s1"
  shows "\<And>g'. g' \<noteq> g \<Longrightarrow> games s1 g' = games s g'"
    and "\<And>g'. players (games s1 g') = players (games s g')"
    and "\<And>g'. status (games s1 g') = status (games s g')"
    and "\<And>g'. currentPlayerIndex (games s1 g') = currentPlayerIndex (games s g')"
    and "\<And>g'. direction (games s1 g') = direction (games s g')"
    and "\<And>g'. topCard (games s1 g') = topCard (games s g')"
    and "\<And>g'. topCardId (games s1 g') = topCardId (games s g')"
    and "\<And>g'. currentColor (games s1 g') = currentColor (games s g')"
    and "\<And>g'. winner (games s1 g') = winner (games s g')"
    and "\<And>g'. pendingDraws (games s1 g') = pendingDraws (games s g')"
    and "\<And>g'. skipNextPlayer (games s1 g') = skipNextPlayer (games s g')"
    and "\<And>g' q. g' \<noteq> g \<or> q \<noteq> p \<Longrightarrow> playerHands s1 g' q = playerHands s g' q"
    and "length (playerHands s1 g p) = length (playerHands s g p) + n"
    and "hasCalledUno s1 = (hasCalledUno s)(g := (hasCalledUno s g)(p := False))"
    and "unoPenaltyApplied s1 = (unoPenaltyApplied s)(g := (unoPenaltyApplied s g)(p := False))"
    and "unoWindowOpen s1 = unoWindowOpen s"
    and "unoWindowPlayer s1 = unoWindowPlayer s"
    and "gameIdCounter s1 = gameIdCounter s"
    and "activeGames s1 = activeGames s"
    and "notStartedGames s1 = notStartedGames s"
proof -
  from assms obtain s0 where loop: "forceDrawLoop e g p n s = Inr s0"
    and s1: "s1 = set_unoPenaltyApplied g p False (set_hasCalledUno g p False s0)"
    by (auto simp add: forceDrawCards_def split: sum.splits)
  from forceDrawLoop_shape [OF loop] obtain dk di mv h
    where s0: "s0 = after_draws g p dk di mv h s"
      and len: "length (playerHands s0 g p) = length (playerHands s g p) + n" by blast
  show "\<And>g'. g' \<noteq> g \<Longrightarrow> games s1 g' = games s g'"
    and "\<And>g'. players (games s1 g') = players (games s g')"
    and "\<And>g'. status (games s1 g') = status (games s g')"
    and "\<And>g'. currentPlayerIndex (games s1 g') = currentPlayerIndex (games s g')"
    and "\<And>g'. direction (games s1 g') = direction (games s g')"
    and "\<And>g'. topCard (games s1 g') = topCard (games s g')"
    and "\<And>g'. topCardId (games s1 g') = topCardId (games s g')"
    and "\<And>g'. currentColor (games s1 g') = currentColor (games s g')"
    and "\<And>g'. winner (games s1 g') = winner (games s g')"
    and "\<And>g'. pendingDraws (games s1 g') = pendingDraws (games s g')"
    and "\<And>g'. skipNextPlayer (games s1 g') = skipNextPlayer (games s g')"
    and "hasCalledUno s1 = (hasCalledUno s)(g := (hasCalledUno s g)(p := False))"
    and "unoPenaltyApplied s1 = (unoPenaltyApplied s)(g := (unoPenaltyApplied s g)(p := False))"
    and "unoWindowOpen s1 = unoWindowOpen s"
    and "unoWindowPlayer s1 = unoWindowPlayer s"
    and "gameIdCounter s1 = gameIdCounter s"
    and "activeGames s1 = activeGames s"
    and "notStartedGames s1 = notStartedGames s"
    by (simp_all add: s1 s0 after_draws_def helper_defs)
  show "\<And>g' q. g' \<noteq> g \<or> q \<noteq> p \<Longrightarrow> playerHands s1 g' q = playerHands s g' q"
    by (auto simp add: s1 s0 after_draws_def helper_defs)
  from len show "length (playerHands s1 g p) = length (playerHands s g p) + n"
    by (simp add: s1 helper_defs)
qed

lemma forceDrawCards_enough:
  "deckIndex (games s g) + n \<le> length (deck (games s g)) \<Longrightarrow>
     \<exists>s1. forceDrawCards e g p n s = Inr s1"
  by (simp add: forceDrawCards_def forceDrawLoop_enough)

lemma nextPlayerIndex_in_range:
  "nextPlayerIndex gm (length (players gm)) = Inr i \<Longrightarrow>
     currentPlayerIndex gm < length (players gm) \<Longrightarrow> i < length (players gm)"
  by (auto simp add: nextPlayerIndex_def split: if_splits)

lemma nextPlayerIndex_ok:
  "currentPlayerIndex gm < length (players gm) \<Longrightarrow>
     \<exists>i. nextPlayerIndex gm (length (players gm)) = Inr i"
  by (auto simp add: nextPlayerIndex_def)

lemma nextPlayerIndex_two:
  "length (players gm) = 2 \<Longrightarrow> currentPlayerIndex gm < 2 \<Longrightarrow>
     nextPlayerIndex gm 2 = Inr (1 - currentPlayerIndex gm)"
proof -
  assume n: "length (players gm) = 2" and lt: "currentPlayerIndex gm < 2"
  then have "currentPlayerIndex gm = 0 \<or> currentPlayerIndex gm = 1" by arith
  then show ?thesis by (auto simp add: nextPlayerIndex_def)
qed

lemma forceDrawCards_frame:
  "forceDrawCards e g p n s = Inr s1 \<Longrightarrow>
     (\<forall>g'. players (games s1 g') = players (games s g') \<and>
        status (games s1 g') = status (games s g') \<and>
        currentPlayerIndex (games s1 g') = currentPlayerIndex (games s g') \<and>
        direction (games s1 g') = direction (games s g') \<and>
        topCard (games s1 g') = topCard (games s g') \<and>
        topCardId (games s1 g') = topCardId (games s g') \<and>
        currentColor (games s1 g') = currentColor (games s g') \<and>
        winner (games s1 g') = winner (games s g') \<and>
        pendingDraws (games s1 g') = pendingDraws (games s g') \<and>
        skipNextPlayer (games s1 g') = skipNextPlayer (games s g')) \<and>
     (\<forall>g' q. g' \<noteq> g \<or> q \<noteq> p \<longrightarrow> playerHands s1 g' q = playerHands s g' q) \<and>
     length (playerHands s1 g p) = length (playerHands s g p) + n \<and>
     hasCalledUno s1 = (hasCalledUno s)(g := (hasCalledUno s g)(p := False)) \<and>
     unoPenaltyApplied s1 = (unoPenaltyApplied s)(g := (unoPenaltyApplied s g)(p := False)) \<and>
     unoWindowOpen s1 = unoWindowOpen s \<and> unoWindowPlayer s1 = unoWindowPlayer s \<and>
     gameIdCounter s1 = gameIdCounter s \<and> activeGames s1 = activeGames s \<and>
     notStartedGames s1 = notStartedGames s"
  using forceDrawCards_fields [of e g p n s s1] by simp

text \<open>What a successful turn advance leaves alone.\<close>

lemma advance_frame:
  "advanceToNextPlayer e g s = Inr s2 \<Longrightarrow>
     (\<forall>g'. players (games s2 g') = players (games s g') \<and>
        status (games s2 g') = status (games s g') \<and>
        direction (games s2 g') = direction (games s g') \<and>
        topCard (games s2 g') = topCard (games s g') \<and>
        topCardId (games s2 g') = topCardId (games s g') \<and>
        currentColor (games s2 g') = currentColor (games s g') \<and>
        winner (games s2 g') = winner (games s g')) \<and>
     unoWindowOpen s2 = unoWindowOpen s \<and> unoWindowPlayer s2 = unoWindowPlayer s \<and>
     gameIdCounter s2 = gameIdCounter s \<and> activeGames s2 = activeGames s \<and>
     notStartedGames s2 = notStartedGames s \<and>
     (\<forall>g' q. hasCalledUno s2 g' q \<longrightarrow> hasCalledUno s g' q) \<and>
     (\<forall>g' q. unoPenaltyApplied s2 g' q \<longrightarrow> unoPenaltyApplied s g' q) \<and>
     currentPlayerIndex (games s2 g) < length (players (games s g))"
  unfolding advanceToNextPlayer_def skipAndDraw_def
  by (auto simp add: Let_def helper_defs split: sum.splits if_splits
        dest!: forceDrawCards_frame)

lemma advance_hands:
  "advanceToNextPlayer e g s = Inr s2 \<Longrightarrow>
     nextPlayerIndex (games s g) (length (players (games s g))) = Inr i \<Longrightarrow>
     q \<noteq> players (games s g) ! i \<or> g' \<noteq> g \<Longrightarrow>
     playerHands s2 g' q = playerHands s g' q"
  unfolding advanceToNextPlayer_def skipAndDraw_def
  by (auto simp add: Let_def helper_defs split: sum.splits if_splits
        dest!: forceDrawCards_frame)

lemma advance_error:
  "advanceToNextPlayer e g s = Inl err \<Longrightarrow>
     currentPlayerIndex (games s g) < length (players (games s g)) \<Longrightarrow>
     err = NoCardsLeftToReshuffle"
  unfolding advanceToNextPlayer_def skipAndDraw_def
  by (auto simp add: Let_def helper_defs nextPlayerIndex_def split: sum.splits if_splits
        dest!: forceDrawCards_frame forceDrawCards_error)


lemma removeCardFromHand_eq':
  "cardIndex < length hand \<Longrightarrow> n = length hand \<Longrightarrow>
     removeCardFromHand hand cardIndex n = take cardIndex hand @ drop (Suc cardIndex) hand"
  by (simp add: removeCardFromHand_eq)

lemma newHand_eq:
  "cardIndex < length hand \<Longrightarrow>
     (if length hand = 1 then [] else removeCardFromHand hand cardIndex (length hand)) =
       take cardIndex hand @ drop (Suc cardIndex) hand"
  by (cases "length hand = 1") (simp_all add: removeCardFromHand_eq)

lemma newHand_length:
  "cardIndex < length hand \<Longrightarrow>
     length (take cardIndex hand @ drop (Suc cardIndex) hand) = length hand - 1"
  by simp


text \<open>How each storage update reads back.\<close>

lemma helper_simps:
  "gameIdCounter (upd_game g f s) = gameIdCounter s"
  "activeGames (upd_game g f s) = activeGames s"
  "notStartedGames (upd_game g f s) = notStartedGames s"
  "games (upd_game g f s) = (games s)(g := f (games s g))"
  "playerHands (upd_game g f s) = playerHands s"
  "hasCalledUno (upd_game g f s) = hasCalledUno s"
  "unoPenaltyApplied (upd_game g f s) = unoPenaltyApplied s"
  "unoWindowOpen (upd_game g f s) = unoWindowOpen s"
  "unoWindowPlayer (upd_game g f s) = unoWindowPlayer s"
  "gameIdCounter (set_hand g p h s) = gameIdCounter s"
  "activeGames (set_hand g p h s) = activeGames s"
  "notStartedGames (set_hand g p h s) = notStartedGames s"
  "games (set_hand g p h s) = games s"
  "playerHands (set_hand g p h s) = (playerHands s)(g := (playerHands s g)(p := h))"
  "hasCalledUno (set_hand g p h s) = hasCalledUno s"
  "unoPenaltyApplied (set_hand g p h s) = unoPenaltyApplied s"
  "unoWindowOpen (set_hand g p h s) = unoWindowOpen s"
  "unoWindowPlayer (set_hand g p h s) = unoWindowPlayer s"
  "gameIdCounter (set_hasCalledUno g p b s) = gameIdCounter s"
  "activeGames (set_hasCalledUno g p b s) = activeGames s"
  "notStartedGames (set_hasCalledUno g p b s) = notStartedGames s"
  "games (set_hasCalledUno g p b s) = games s"
  "playerHands (set_hasCalledUno g p b s) = playerHands s"
  "hasCalledUno (set_hasCalledUno g p b s) = (hasCalledUno s)(g := (hasCalledUno s g)(p := b))"
  "unoPenaltyApplied (set_hasCalledUno g p b s) = unoPenaltyApplied s"
  "unoWindowOpen (set_hasCalledUno g p b s) = unoWindowOpen s"
  "unoWindowPlayer (set_hasCalledUno g p b s) = unoWindowPlayer s"
  "gameIdCounter (set_unoPenaltyApplied g p b s) = gameIdCounter s"
  "activeGames (set_unoPenaltyApplied g p b s) = activeGames s"
  "notStartedGames (set_unoPenaltyApplied g p b s) = notStartedGames s"
  "games (set_unoPenaltyApplied g p b s) = games s"
  "playerHands (set_unoPenaltyApplied g p b s) = playerHands s"
  "hasCalledUno (set_unoPenaltyApplied g p b s) = hasCalledUno s"
  "unoPenaltyApplied (set_unoPenaltyApplied g p b s) = (unoPenaltyApplied s)(g := (unoPenaltyApplied s g)(p := b))"
  "unoWindowOpen (set_unoPenaltyApplied g p b s) = unoWindowOpen s"
  "unoWindowPlayer (set_unoPenaltyApplied g p b s) = unoWindowPlayer s"
  "gameIdCounter (set_unoWindowOpen g b s) = gameIdCounter s"
  "activeGames (set_unoWindowOpen g b s) = activeGames s"
  "notStartedGames (set_unoWindowOpen g b s) = notStartedGames s"
  "games (set_unoWindowOpen g b s) = games s"
  "playerHands (set_unoWindowOpen g b s) = playerHands s"
  "hasCalledUno (set_unoWindowOpen g b s) = hasCalledUno s"
  "unoPenaltyApplied (set_unoWindowOpen g b s) = unoPenaltyApplied s"
  "unoWindowOpen (set_unoWindowOpen g b s) = (unoWindowOpen s)(g := b)"
  "unoWindowPlayer (set_unoWindowOpen g b s) = unoWindowPlayer s"
  "gameIdCounter (set_unoWindowPlayer g p s) = gameIdCounter s"
  "activeGames (set_unoWindowPlayer g p s) = activeGames s"
  "notStartedGames (set_unoWindowPlayer g p s) = notStartedGames s"
  "games (set_unoWindowPlayer g p s) = games s"
  "playerHands (set_unoWindowPlayer g p s) = playerHands s"
  "hasCalledUno (set_unoWindowPlayer g p s) = hasCalledUno s"
  "unoPenaltyApplied (set_unoWindowPlayer g p s) = unoPenaltyApplied s"
  "unoWindowOpen (set_unoWindowPlayer g p s) = unoWindowOpen s"
  "unoWindowPlayer (set_unoWindowPlayer g p s) = (unoWindowPlayer s)(g := p)"
  "gameIdCounter (removeFromActiveGames g s) = gameIdCounter s"
  "activeGames (removeFromActiveGames g s) = removeFromList (activeGames s) g"
  "notStartedGames (removeFromActiveGames g s) = notStartedGames s"
  "games (removeFromActiveGames g s) = games s"
  "playerHands (removeFromActiveGames g s) = playerHands s"
  "hasCalledUno (removeFromActiveGames g s) = hasCalledUno s"
  "unoPenaltyApplied (removeFromActiveGames g s) = unoPenaltyApplied s"
  "unoWindowOpen (removeFromActiveGames g s) = unoWindowOpen s"
  "unoWindowPlayer (removeFromActiveGames g s) = unoWindowPlayer s"
  "gameIdCounter (removeFromNotStartedGames g s) = gameIdCounter s"
  "activeGames (removeFromNotStartedGames g s) = activeGames s"
  "notStartedGames (removeFromNotStartedGames g s) = removeFromList (notStartedGames s) g"
  "games (removeFromNotStartedGames g s) = games s"
  "playerHands (removeFromNotStartedGames g s) = playerHands s"
  "hasCalledUno (removeFromNotStartedGames g s) = hasCalledUno s"
  "unoPenaltyApplied (removeFromNotStartedGames g s) = unoPenaltyApplied s"
  "unoWindowOpen (removeFromNotStartedGames g s) = unoWindowOpen s"
  "unoWindowPlayer (removeFromNotStartedGames g s) = unoWindowPlayer s"
  by (simp_all add: helper_defs)

lemma applyCardEffect_simps:
  "gameIdCounter (applyCardEffect g t s) = gameIdCounter s"
  "activeGames (applyCardEffect g t s) = activeGames s"
  "notStartedGames (applyCardEffect g t s) = notStartedGames s"
  "playerHands (applyCardEffect g t s) = playerHands s"
  "hasCalledUno (applyCardEffect g t s) = hasCalledUno s"
  "unoPenaltyApplied (applyCardEffect g t s) = unoPenaltyApplied s"
  "unoWindowOpen (applyCardEffect g t s) = unoWindowOpen s"
  "unoWindowPlayer (applyCardEffect g t s) = unoWindowPlayer s"
  "id_game (games (applyCardEffect g t s) g') = id_game (games s g')"
  "players (games (applyCardEffect g t s) g') = players (games s g')"
  "status (games (applyCardEffect g t s) g') = status (games s g')"
  "startTime (games (applyCardEffect g t s) g') = startTime (games s g')"
  "endTime (games (applyCardEffect g t s) g') = endTime (games s g')"
  "deck (games (applyCardEffect g t s) g') = deck (games s g')"
  "moves (games (applyCardEffect g t s) g') = moves (games s g')"
  "topCard (games (applyCardEffect g t s) g') = topCard (games s g')"
  "topCardId (games (applyCardEffect g t s) g') = topCardId (games s g')"
  "deckIndex (games (applyCardEffect g t s) g') = deckIndex (games s g')"
  "currentPlayerIndex (games (applyCardEffect g t s) g') = currentPlayerIndex (games s g')"
  "winner (games (applyCardEffect g t s) g') = winner (games s g')"
  "currentColor (games (applyCardEffect g t s) g') = currentColor (games s g')"
  "direction (games (applyCardEffect g t s) g') =
     (if g' = g \<and> t = CARD_TYPE_REVERSE then - direction (games s g') else direction (games s g'))"
  "skipNextPlayer (games (applyCardEffect g t s) g') =
     (if g' = g \<and> (t = CARD_TYPE_SKIP \<or> t = CARD_TYPE_DRAW_TWO \<or> t = CARD_TYPE_WILD_DRAW_FOUR \<or>
         t = CARD_TYPE_REVERSE \<and> length (players (games s g)) = 2)
      then True else skipNextPlayer (games s g'))"
  "pendingDraws (games (applyCardEffect g t s) g') =
     (if g' = g \<and> t = CARD_TYPE_DRAW_TWO then 2
      else if g' = g \<and> t = CARD_TYPE_WILD_DRAW_FOUR then 4 else pendingDraws (games s g'))"
  by (simp_all add: applyCardEffect_def helper_defs type_defs Let_def)

lemma applyCardEffect_other:
  "g' \<noteq> g \<Longrightarrow> games (applyCardEffect g t s) g' = games s g'"
  by (simp add: applyCardEffect_def helper_defs)

lemma playCard_fields:
  assumes "cardIndex < length (playerHands s g (msg_sender e))"
  shows "\<And>g'. players (games (playCard e g cardIndex r c s) g') = players (games s g')"
    and "\<And>g'. status (games (playCard e g cardIndex r c s) g') = status (games s g')"
    and "\<And>g'. currentPlayerIndex (games (playCard e g cardIndex r c s) g') =
            currentPlayerIndex (games s g')"
    and "\<And>g'. winner (games (playCard e g cardIndex r c s) g') = winner (games s g')"
    and "\<And>g'. deck (games (playCard e g cardIndex r c s) g') = deck (games s g')"
    and "\<And>g'. deckIndex (games (playCard e g cardIndex r c s) g') = deckIndex (games s g')"
    and "\<And>g'. g' \<noteq> g \<Longrightarrow> games (playCard e g cardIndex r c s) g' = games s g'"
    and "topCardId (games (playCard e g cardIndex r c s) g) = r"
    and "topCard (games (playCard e g cardIndex r c s) g) =
           playerHands s g (msg_sender e) ! cardIndex"
    and "moves (games (playCard e g cardIndex r c s) g) =
           moves (games s g) @ [playerHands s g (msg_sender e) ! cardIndex]"
    and "playerHands (playCard e g cardIndex r c s) g (msg_sender e) =
           take cardIndex (playerHands s g (msg_sender e)) @
           drop (Suc cardIndex) (playerHands s g (msg_sender e))"
    and "\<And>g' q. g' \<noteq> g \<or> q \<noteq> msg_sender e \<Longrightarrow>
           playerHands (playCard e g cardIndex r c s) g' q = playerHands s g' q"
    and "hasCalledUno (playCard e g cardIndex r c s) =
           (hasCalledUno s)(g := (hasCalledUno s g)(msg_sender e := False))"
    and "unoPenaltyApplied (playCard e g cardIndex r c s) =
           (unoPenaltyApplied s)(g := (unoPenaltyApplied s g)(msg_sender e := False))"
    and "gameIdCounter (playCard e g cardIndex r c s) = gameIdCounter s"
    and "activeGames (playCard e g cardIndex r c s) = activeGames s"
    and "notStartedGames (playCard e g cardIndex r c s) = notStartedGames s"
    and "unoWindowOpen (playCard e g cardIndex r c s) =
           (if length (playerHands s g (msg_sender e)) = 2 \<and> \<not> hasCalledUno s g (msg_sender e)
            then (unoWindowOpen s)(g := True) else unoWindowOpen s)"
    and "unoWindowPlayer (playCard e g cardIndex r c s) =
           (if length (playerHands s g (msg_sender e)) = 2 \<and> \<not> hasCalledUno s g (msg_sender e)
            then (unoWindowPlayer s)(g := msg_sender e) else unoWindowPlayer s)"
    and "direction (games (playCard e g cardIndex r c s) g) =
           (if getCardType r = CARD_TYPE_REVERSE then - direction (games s g)
            else direction (games s g))"
    and "skipNextPlayer (games (playCard e g cardIndex r c s) g) =
           (if getCardType r = CARD_TYPE_SKIP \<or> getCardType r = CARD_TYPE_DRAW_TWO \<or>
               getCardType r = CARD_TYPE_WILD_DRAW_FOUR \<or>
               getCardType r = CARD_TYPE_REVERSE \<and> length (players (games s g)) = 2
            then True else skipNextPlayer (games s g))"
    and "pendingDraws (games (playCard e g cardIndex r c s) g) =
           (if getCardType r = CARD_TYPE_DRAW_TWO then 2
            else if getCardType r = CARD_TYPE_WILD_DRAW_FOUR then 4
            else pendingDraws (games s g))"
    and "currentColor (games (playCard e g cardIndex r c s) g) =
           (if getCardType r = CARD_TYPE_WILD \<or> getCardType r = CARD_TYPE_WILD_DRAW_FOUR
            then c else getCardColor r)"
proof -
  let ?h = "playerHands s g (msg_sender e)"
  have a: "(if length ?h = 1 then [] else removeCardFromHand ?h cardIndex (length ?h)) =
      take cardIndex ?h @ drop (Suc cardIndex) ?h"
    using assms by (rule newHand_eq)
  have b: "(length ?h = 2 \<and> length (take cardIndex ?h @ drop (Suc cardIndex) ?h) = 1) =
      (length ?h = 2)"
    using assms by auto
  let ?nh = "take cardIndex ?h @ drop (Suc cardIndex) ?h"
  let ?s1 = "set_hand g (msg_sender e) ?nh s"
  have pc: "playCard e g cardIndex r c s =
    applyCardEffect g (getCardType r)
      (upd_game g (\<lambda>gm. gm\<lparr>moves := moves gm @ [getEuint256 ?h cardIndex]\<rparr>)
        (upd_game g (\<lambda>gm. gm\<lparr>currentColor :=
             (if getCardType r = CARD_TYPE_WILD \<or> getCardType r = CARD_TYPE_WILD_DRAW_FOUR
              then c else getCardColor r)\<rparr>)
          (upd_game g (\<lambda>gm. gm\<lparr>topCard := getEuint256 ?h cardIndex, topCardId := r\<rparr>)
            (set_unoPenaltyApplied g (msg_sender e) False
              (set_hasCalledUno g (msg_sender e) False
                (if length ?h = 2
                 then (if \<not> hasCalledUno ?s1 g (msg_sender e)
                       then set_unoWindowPlayer g (msg_sender e) (set_unoWindowOpen g True ?s1)
                       else ?s1)
                 else ?s1))))))"
    unfolding playCard_def Let_def a b ..
  note defs = pc helper_simps applyCardEffect_simps applyCardEffect_other getEuint256_def
  show "\<And>g'. players (games (playCard e g cardIndex r c s) g') = players (games s g')"
    by (simp add: defs)
  show "\<And>g'. status (games (playCard e g cardIndex r c s) g') = status (games s g')"
    by (simp add: defs)
  show "\<And>g'. currentPlayerIndex (games (playCard e g cardIndex r c s) g') =
            currentPlayerIndex (games s g')"
    by (simp add: defs)
  show "\<And>g'. winner (games (playCard e g cardIndex r c s) g') = winner (games s g')"
    by (simp add: defs)
  show "\<And>g'. deck (games (playCard e g cardIndex r c s) g') = deck (games s g')"
    by (simp add: defs)
  show "\<And>g'. deckIndex (games (playCard e g cardIndex r c s) g') = deckIndex (games s g')"
    by (simp add: defs)
  show "\<And>g'. g' \<noteq> g \<Longrightarrow> games (playCard e g cardIndex r c s) g' = games s g'"
    by (simp add: defs)
  show "topCardId (games (playCard e g cardIndex r c s) g) = r"
    by (simp add: defs)
  show "topCard (games (playCard e g cardIndex r c s) g) = ?h ! cardIndex"
    by (simp add: defs)
  show "moves (games (playCard e g cardIndex r c s) g) = moves (games s g) @ [?h ! cardIndex]"
    by (simp add: defs)
  show "playerHands (playCard e g cardIndex r c s) g (msg_sender e) =
           take cardIndex ?h @ drop (Suc cardIndex) ?h"
    by (simp add: defs)
  show "\<And>g' q. g' \<noteq> g \<or> q \<noteq> msg_sender e \<Longrightarrow>
           playerHands (playCard e g cardIndex r c s) g' q = playerHands s g' q"
    by (auto simp add: defs)
  show "hasCalledUno (playCard e g cardIndex r c s) =
           (hasCalledUno s)(g := (hasCalledUno s g)(msg_sender e := False))"
    by (simp add: defs)
  show "unoPenaltyApplied (playCard e g cardIndex r c s) =
           (unoPenaltyApplied s)(g := (unoPenaltyApplied s g)(msg_sender e := False))"
    by (simp add: defs)
  show "gameIdCounter (playCard e g cardIndex r c s) = gameIdCounter s"
    by (simp add: defs)
  show "activeGames (playCard e g cardIndex r c s) = activeGames s"
    by (simp add: defs)
  show "notStartedGames (playCard e g cardIndex r c s) = notStartedGames s"
    by (simp add: defs)
  show "unoWindowOpen (playCard e g cardIndex r c s) =
           (if length ?h = 2 \<and> \<not> hasCalledUno s g (msg_sender e)
            then (unoWindowOpen s)(g := True) else unoWindowOpen s)"
    by (simp add: defs)
  show "unoWindowPlayer (playCard e g cardIndex r c s) =
           (if length ?h = 2 \<and> \<not> hasCalledUno s g (msg_sender e)
            then (unoWindowPlayer s)(g := msg_sender e) else unoWindowPlayer s)"
    by (simp add: defs)
  show "direction (games (playCard e g cardIndex r c s) g) =
           (if getCardType r = CARD_TYPE_REVERSE then - direction (games s g)
            else direction (games s g))"
    by (simp add: defs)
  show "skipNextPlayer (games (playCard e g cardIndex r c s) g) =
           (if getCardType r = CARD_TYPE_SKIP \<or> getCardType r = CARD_TYPE_DRAW_TWO \<or>
               getCardType r = CARD_TYPE_WILD_DRAW_FOUR \<or>
               getCardType r = CARD_TYPE_REVERSE \<and> length (players (games s g)) = 2
            then True else skipNextPlayer (games s g))"
    by (simp add: defs)
  show "pendingDraws (games (playCard e g cardIndex r c s) g) =
           (if getCardType r = CARD_TYPE_DRAW_TWO then 2
            else if getCardType r = CARD_TYPE_WILD_DRAW_FOUR then 4
            else pendingDraws (games s g))"
    by (simp add: defs)
  show "currentColor (games (playCard e g cardIndex r c s) g) =
           (if getCardType r = CARD_TYPE_WILD \<or> getCardType r = CARD_TYPE_WILD_DRAW_FOUR
            then c else getCardColor r)"
    by (simp add: defs)
qed



lemma closeWindowOnPlay_frame:
  "games (closeWindowOnPlay e g s) = games s"
  "playerHands (closeWindowOnPlay e g s) = playerHands s"
  "hasCalledUno (closeWindowOnPlay e g s) = hasCalledUno s"
  "unoPenaltyApplied (closeWindowOnPlay e g s) = unoPenaltyApplied s"
  "unoWindowPlayer (closeWindowOnPlay e g s) = unoWindowPlayer s"
  "unoWindowOpen (closeWindowOnPlay e g s) = (unoWindowOpen s)(g := False)"
  "gameIdCounter (closeWindowOnPlay e g s) = gameIdCounter s"
  "activeGames (closeWindowOnPlay e g s) = activeGames s"
  "notStartedGames (closeWindowOnPlay e g s) = notStartedGames s"
  by (auto simp add: closeWindowOnPlay_def Let_def helper_defs fun_eq_iff)

lemma commitMove_Inr:
  assumes "commitMove e g cardIndex r c s = Inr s'"
  shows "0 < g" "g \<le> gameIdCounter s" "status (games s g) = Started"
    "msg_sender e \<in> set (players (games s g))" "inco_getFee e * 2 \<le> msg_value e"
    "currentPlayerIndex (games s g) < length (players (games s g))"
    "players (games s g) ! currentPlayerIndex (games s g) = msg_sender e"
    "c \<le> 3" "r < DECK_SIZE" "cardIndex < length (playerHands s g (msg_sender e))"
    "isCardPlayableInternal r (topCardId (games s g)) (currentColor (games s g))"
    "commitMove_body e g cardIndex r c (closeWindowOnPlay e g s) = Inr s'"
  using assms unfolding commitMove_def validateGame_def onlyPlayer_def Let_def closeWindowOnPlay_frame
  by (simp_all split: if_splits)

lemma commitMove_accepts:
  assumes "0 < g" "g \<le> gameIdCounter s" "status (games s g) = Started"
    "inco_getFee e * 2 \<le> msg_value e"
    "currentPlayerIndex (games s g) < length (players (games s g))"
    "players (games s g) ! currentPlayerIndex (games s g) = msg_sender e"
    "c \<le> 3" "r < DECK_SIZE" "cardIndex < length (playerHands s g (msg_sender e))"
    "isCardPlayableInternal r (topCardId (games s g)) (currentColor (games s g))"
  shows "commitMove e g cardIndex r c s = commitMove_body e g cardIndex r c (closeWindowOnPlay e g s)"
proof -
  from assms(5,6) have "msg_sender e \<in> set (players (games s g))"
    by (metis nth_mem)
  with assms show ?thesis
    unfolding commitMove_def validateGame_def onlyPlayer_def
    by (simp add: Let_def closeWindowOnPlay_frame)
qed


lemma nextPlayerIndex_neq:
  "nextPlayerIndex gm (length (players gm)) = Inr j \<Longrightarrow> 2 \<le> length (players gm) \<Longrightarrow>
     currentPlayerIndex gm < length (players gm) \<Longrightarrow>
     j \<noteq> currentPlayerIndex gm \<and> j < length (players gm)"
proof -
  assume nx: "nextPlayerIndex gm (length (players gm)) = Inr j"
    and n: "2 \<le> length (players gm)" and lt: "currentPlayerIndex gm < length (players gm)"
  have m: "Suc (currentPlayerIndex gm) mod length (players gm) \<noteq> currentPlayerIndex gm"
  proof (cases "Suc (currentPlayerIndex gm) = length (players gm)")
    case True
    with n show ?thesis by auto
  next
    case False
    with lt have "Suc (currentPlayerIndex gm) < length (players gm)" by arith
    then show ?thesis by simp
  qed
  from nx n lt m show ?thesis
    by (auto simp add: nextPlayerIndex_def split: if_splits)
qed

lemma advance_two_skip:
  assumes adv: "advanceToNextPlayer e g s = Inr s2"
    and two: "length (players (games s g)) = 2"
    and skip: "skipNextPlayer (games s g)"
    and lt: "currentPlayerIndex (games s g) < 2"
  shows "currentPlayerIndex (games s2 g) = currentPlayerIndex (games s g)"
proof -
  from lt have "currentPlayerIndex (games s g) = 0 \<or> currentPlayerIndex (games s g) = 1" by arith
  with adv two skip show ?thesis
    unfolding advanceToNextPlayer_def skipAndDraw_def nextPlayerIndex_def
    by (auto simp add: Let_def helper_simps split: sum.splits if_splits
          dest!: forceDrawCards_frame)
qed

lemma commitMove_body_cases:
  assumes "commitMove_body e g cardIndex r c s = Inr s'"
  shows "(playerHands (playCard e g cardIndex r c s) g (msg_sender e) = [] \<and>
          s' = removeFromActiveGames g
                 (upd_game g (\<lambda>gm. gm\<lparr>status := Ended, endTime := block_timestamp e,
                    winner := msg_sender e\<rparr>) (playCard e g cardIndex r c s))) \<or>
         (playerHands (playCard e g cardIndex r c s) g (msg_sender e) \<noteq> [] \<and>
          advanceToNextPlayer e g (playCard e g cardIndex r c s) = Inr s')"
  using assms unfolding commitMove_body_def Let_def
  by (simp split: if_splits)

text \<open>
  C7. A successful \<open>commitMove\<close> from a hand of one card empties the hand, sets the status
  to \<open>Ended\<close>, records the caller as winner and leaves \<open>currentPlayerIndex\<close> as it was:
  the function returns before the turn is advanced.
\<close>

theorem win_detection:
  assumes ok: "commitMove e g cardIndex r c s = Inr s'"
    and one: "length (playerHands s g (msg_sender e)) = 1"
  shows "status (games s' g) = Ended \<and> winner (games s' g) = msg_sender e \<and>
         currentPlayerIndex (games s' g) = currentPlayerIndex (games s g) \<and>
         playerHands s' g (msg_sender e) = [] \<and>
         activeGames s' = removeFromList (activeGames s) g"
proof -
  let ?s0 = "closeWindowOnPlay e g s"
  let ?s7 = "playCard e g cardIndex r c ?s0"
  from commitMove_Inr [OF ok] have idx: "cardIndex < length (playerHands ?s0 g (msg_sender e))"
    and body: "commitMove_body e g cardIndex r c ?s0 = Inr s'"
    by (simp_all add: closeWindowOnPlay_frame)
  have "playerHands ?s7 g (msg_sender e) =
      take cardIndex (playerHands s g (msg_sender e)) @
      drop (Suc cardIndex) (playerHands s g (msg_sender e))"
    by (simp add: playCard_fields [OF idx] closeWindowOnPlay_frame)
  moreover from commitMove_Inr(10) [OF ok] one have "cardIndex = 0" by simp
  ultimately have empty: "playerHands ?s7 g (msg_sender e) = []"
    using one by simp
  with commitMove_body_cases [OF body]
  have s': "s' = removeFromActiveGames g
      (upd_game g (\<lambda>gm. gm\<lparr>status := Ended, endTime := block_timestamp e,
         winner := msg_sender e\<rparr>) ?s7)"
    by simp
  have "status (games s' g) = Ended" "winner (games s' g) = msg_sender e"
    by (simp_all add: s' helper_simps)
  moreover have "currentPlayerIndex (games s' g) = currentPlayerIndex (games s g)"
    by (simp add: s' helper_simps playCard_fields [OF idx] closeWindowOnPlay_frame)
  moreover have "playerHands s' g (msg_sender e) = []"
    using empty by (simp add: s' helper_simps)
  moreover have "activeGames s' = removeFromList (activeGames s) g"
    by (simp add: s' helper_simps playCard_fields [OF idx] closeWindowOnPlay_frame)
  ultimately show ?thesis by simp
qed

text \<open>
  C6. In a game of exactly two players, a successful \<open>commitMove\<close> of a Reverse card (an id
  in \<open>[84,92)\<close>) flips the direction and leaves \<open>currentPlayerIndex\<close> unchanged.
\<close>

theorem two_player_reverse:
  assumes ok: "commitMove e g cardIndex r c s = Inr s'"
    and two: "length (players (games s g)) = 2"
    and rev: "REVERSE_START \<le> r" "r < REVERSE_END"
  shows "currentPlayerIndex (games s' g) = currentPlayerIndex (games s g) \<and>
         direction (games s' g) = - direction (games s g)"
proof -
  let ?s0 = "closeWindowOnPlay e g s"
  let ?s7 = "playCard e g cardIndex r c ?s0"
  from rev have ty: "getCardType r = CARD_TYPE_REVERSE"
    by (simp add: getCardType_def band_defs)
  from commitMove_Inr [OF ok] have idx: "cardIndex < length (playerHands ?s0 g (msg_sender e))"
    and cur: "currentPlayerIndex (games s g) < length (players (games s g))"
    and body: "commitMove_body e g cardIndex r c ?s0 = Inr s'"
    by (simp_all add: closeWindowOnPlay_frame)
  note pf = playCard_fields [OF idx] closeWindowOnPlay_frame
  have d7: "direction (games ?s7 g) = - direction (games s g)"
    and i7: "currentPlayerIndex (games ?s7 g) = currentPlayerIndex (games s g)"
    and p7: "players (games ?s7 g) = players (games s g)"
    and k7: "skipNextPlayer (games ?s7 g)"
    using ty two by (simp_all add: pf)
  from commitMove_body_cases [OF body] show ?thesis
  proof
    assume "playerHands ?s7 g (msg_sender e) = [] \<and>
          s' = removeFromActiveGames g
                 (upd_game g (\<lambda>gm. gm\<lparr>status := Ended, endTime := block_timestamp e,
                    winner := msg_sender e\<rparr>) ?s7)"
    then show ?thesis using d7 i7 by (simp add: helper_simps)
  next
    assume "playerHands ?s7 g (msg_sender e) \<noteq> [] \<and> advanceToNextPlayer e g ?s7 = Inr s'"
    then have adv: "advanceToNextPlayer e g ?s7 = Inr s'" by simp
    from cur two have "currentPlayerIndex (games ?s7 g) < 2" by (simp add: i7)
    with advance_two_skip [OF adv] p7 two k7
    have "currentPlayerIndex (games s' g) = currentPlayerIndex (games ?s7 g)" by simp
    moreover from advance_frame [OF adv]
    have "direction (games s' g) = direction (games ?s7 g)" by simp
    ultimately show ?thesis using d7 i7 by simp
  qed
qed


lemmas run_defs = deployed_def emptyGame_def createGame_def joinGame_def startGame_def commitMove_def
   commitMove_body_def playCard_def closeWindowOnPlay_def closeWindowOnDraw_def drawCard_def
   callUno_def penalizeUno_def forceDrawCards_def forceDrawLoop_step forceDrawOne_def
   free_caller_def
   reshuffleFromDiscards_def
   advanceToNextPlayer_def skipAndDraw_def nextPlayerIndex_def applyCardEffect_def
   removeCardFromHand_def removeFromList_def validateGame_def onlyPlayer_def helper_defs
   dealHandToPlayer_def slice_def getEuint256_def isCardPlayableInternal_def getCardType_def
   getCardColor_def getCardValue_def band_defs type_defs INITIAL_HAND_SIZE_def MAX_PLAYERS_def
   Let_def caller_def table_def sortedDeck_def transact_def

theorem win_detection_witness:
  "\<exists>s'. commitMove (caller 1) 1 0 0 0 (table [0] [8, 9, 10, 11, 12, 13, 14]) = Inr s' \<and>
        length (playerHands (table [0] [8, 9, 10, 11, 12, 13, 14]) 1 (msg_sender (caller 1))) = 1 \<and>
        status (games s' 1) = Ended \<and> winner (games s' 1) = 1 \<and>
        currentPlayerIndex (games s' 1) = 0 \<and> playerHands s' 1 1 = []"
proof -
  have "\<exists>s'. commitMove (caller 1) 1 0 0 0 (table [0] [8, 9, 10, 11, 12, 13, 14]) = Inr s'"
    by (simp add: run_defs)
  then obtain s' where ok: "commitMove (caller 1) 1 0 0 0 (table [0] [8, 9, 10, 11, 12, 13, 14]) = Inr s'"
    by blast
  have one: "length (playerHands (table [0] [8, 9, 10, 11, 12, 13, 14]) 1 (msg_sender (caller 1))) = 1"
    by (simp add: table_def caller_def)
  have se: "msg_sender (caller 1) = 1" by (simp add: caller_def)
  have cu: "currentPlayerIndex (games (table [0] [8, 9, 10, 11, 12, 13, 14]) 1) = 0"
    by (simp add: table_def)
  from win_detection [OF ok one] se cu have "status (games s' 1) = Ended" "winner (games s' 1) = 1"
    "currentPlayerIndex (games s' 1) = 0" "playerHands s' 1 1 = []"
    by simp_all
  with ok one show ?thesis by blast
qed

theorem two_player_reverse_witness:
  "\<exists>s'. commitMove (caller 1) 1 0 84 0 (table [84, 1] [8, 9, 10, 11, 12, 13, 14]) = Inr s' \<and>
        length (players (games (table [84, 1] [8, 9, 10, 11, 12, 13, 14]) 1)) = 2 \<and>
        REVERSE_START \<le> 84 \<and> (84::nat) < REVERSE_END \<and>
        currentPlayerIndex (games s' 1) = 0 \<and> direction (games s' 1) = - 1"
proof -
  have "\<exists>s'. commitMove (caller 1) 1 0 84 0 (table [84, 1] [8, 9, 10, 11, 12, 13, 14]) = Inr s'"
    by (simp add: run_defs)
  then obtain s' where ok: "commitMove (caller 1) 1 0 84 0 (table [84, 1] [8, 9, 10, 11, 12, 13, 14]) = Inr s'"
    by blast
  have two: "length (players (games (table [84, 1] [8, 9, 10, 11, 12, 13, 14]) 1)) = 2"
    by (simp add: table_def)
  have rev: "REVERSE_START \<le> 84" "(84::nat) < REVERSE_END"
    by (simp_all add: band_defs)
  have cu: "currentPlayerIndex (games (table [84, 1] [8, 9, 10, 11, 12, 13, 14]) 1) = 0"
    "direction (games (table [84, 1] [8, 9, 10, 11, 12, 13, 14]) 1) = 1"
    by (simp_all add: table_def)
  from two_player_reverse [OF ok two rev] cu have "currentPlayerIndex (games s' 1) = 0"
    "direction (games s' 1) = - 1"
    by simp_all
  with ok two rev show ?thesis by blast
qed

text \<open>
  C8. Reshuffling fails with \<open>NoCardsLeftToReshuffle\<close> when \<open>moves\<close> holds fewer than two
  cards. Otherwise it succeeds: the new \<open>moves\<close> is the top card alone, the top card and its
  public id are unchanged, the cursor is 0, and, the shuffle being a permutation, the new
  draw pile is a permutation of \<open>moves\<close> without its last card; where the top card is the
  last move, draw pile and \<open>moves\<close> together hold exactly the cards \<open>moves\<close> held.
\<close>

theorem reshuffle_keeps_top:
  assumes perm: "\<forall>xs. mset (ePreview_shuffle e xs) = mset xs"
  shows "(length (moves (games s g)) < 2 \<longrightarrow>
            reshuffleFromDiscards e g s = Inl NoCardsLeftToReshuffle) \<and>
         (2 \<le> length (moves (games s g)) \<longrightarrow>
            (\<exists>s'. reshuffleFromDiscards e g s = Inr s' \<and>
               moves (games s' g) = [topCard (games s g)] \<and>
               topCard (games s' g) = topCard (games s g) \<and>
               topCardId (games s' g) = topCardId (games s g) \<and>
               deckIndex (games s' g) = 0 \<and>
               mset (deck (games s' g)) = mset (butlast (moves (games s g))) \<and>
               (topCard (games s g) = last (moves (games s g)) \<longrightarrow>
                  last (moves (games s' g)) = last (moves (games s g)) \<and>
                  mset (deck (games s' g)) + mset (moves (games s' g)) = mset (moves (games s g)))))"
proof (intro conjI impI)
  assume "length (moves (games s g)) < 2"
  then show "reshuffleFromDiscards e g s = Inl NoCardsLeftToReshuffle"
    by (rule reshuffle_fails)
next
  assume two: "2 \<le> length (moves (games s g))"
  let ?s' = "upd_game g (\<lambda>gm. gm\<lparr>deck := ePreview_shuffle e (butlast (moves (games s g))),
              deckIndex := 0, moves := [topCard (games s g)]\<rparr>) s"
  from two have ne: "moves (games s g) \<noteq> []" by auto
  have r: "reshuffleFromDiscards e g s = Inr ?s'"
    using two by (rule reshuffle_succeeds)
  have d: "mset (deck (games ?s' g)) = mset (butlast (moves (games s g)))"
    using perm by (simp add: helper_simps)
  have "topCard (games s g) = last (moves (games s g)) \<longrightarrow>
      last (moves (games ?s' g)) = last (moves (games s g)) \<and>
      mset (deck (games ?s' g)) + mset (moves (games ?s' g)) = mset (moves (games s g))"
  proof
    assume top: "topCard (games s g) = last (moves (games s g))"
    have "mset (butlast (moves (games s g))) + {#last (moves (games s g))#} =
        mset (butlast (moves (games s g)) @ [last (moves (games s g))])"
      by simp
    also have "\<dots> = mset (moves (games s g))"
      using ne by simp
    finally show "last (moves (games ?s' g)) = last (moves (games s g)) \<and>
      mset (deck (games ?s' g)) + mset (moves (games ?s' g)) = mset (moves (games s g))"
      using d top by (simp add: helper_simps)
  qed
  with r d show "\<exists>s'. reshuffleFromDiscards e g s = Inr s' \<and>
               moves (games s' g) = [topCard (games s g)] \<and>
               topCard (games s' g) = topCard (games s g) \<and>
               topCardId (games s' g) = topCardId (games s g) \<and>
               deckIndex (games s' g) = 0 \<and>
               mset (deck (games s' g)) = mset (butlast (moves (games s g))) \<and>
               (topCard (games s g) = last (moves (games s g)) \<longrightarrow>
                  last (moves (games s' g)) = last (moves (games s g)) \<and>
                  mset (deck (games s' g)) + mset (moves (games s' g)) = mset (moves (games s g)))"
    by (simp add: helper_simps)
qed


theorem reshuffle_keeps_top_witness:
  "(\<forall>xs. mset (ePreview_shuffle (caller 1) xs) = mset xs) \<and>
   length (moves (games (table [] []) 1)) < 2 \<and>
   reshuffleFromDiscards (caller 1) 1 (table [] []) = Inl NoCardsLeftToReshuffle \<and>
   2 \<le> length (moves (games (upd_game 1 (\<lambda>gm. gm\<lparr>moves := [3, 4, 5], topCard := 5\<rparr>) (table [] [])) 1)) \<and>
   topCard (games (upd_game 1 (\<lambda>gm. gm\<lparr>moves := [3, 4, 5], topCard := 5\<rparr>) (table [] [])) 1) =
     last (moves (games (upd_game 1 (\<lambda>gm. gm\<lparr>moves := [3, 4, 5], topCard := 5\<rparr>) (table [] [])) 1)) \<and>
   (\<exists>s'. reshuffleFromDiscards (caller 1) 1
           (upd_game 1 (\<lambda>gm. gm\<lparr>moves := [3, 4, 5], topCard := 5\<rparr>) (table [] [])) = Inr s' \<and>
         moves (games s' 1) = [5] \<and> topCard (games s' 1) = 5 \<and> deckIndex (games s' 1) = 0 \<and>
         mset (deck (games s' 1)) = {#3, 4#})"
proof -
  let ?s = "upd_game 1 (\<lambda>gm. gm\<lparr>moves := [3, 4, 5], topCard := 5\<rparr>) (table [] [])"
  have perm: "\<forall>xs. mset (ePreview_shuffle (caller 1) xs) = mset xs"
    by (simp add: caller_def)
  have few: "length (moves (games (table [] []) 1)) < 2"
    by (simp add: table_def)
  have many: "2 \<le> length (moves (games ?s 1))" and top: "topCard (games ?s 1) = last (moves (games ?s 1))"
    and mv: "moves (games ?s 1) = [3, 4, 5]" and tc: "topCard (games ?s 1) = 5"
    by (simp_all add: helper_simps)
  from reshuffle_keeps_top [OF perm, of "table [] []" 1] few
  have a: "reshuffleFromDiscards (caller 1) 1 (table [] []) = Inl NoCardsLeftToReshuffle"
    by blast
  from reshuffle_keeps_top [OF perm, of ?s 1] many
  obtain s' where "reshuffleFromDiscards (caller 1) 1 ?s = Inr s'"
    "moves (games s' 1) = [topCard (games ?s 1)]" "topCard (games s' 1) = topCard (games ?s 1)"
    "deckIndex (games s' 1) = 0" "mset (deck (games s' 1)) = mset (butlast (moves (games ?s 1)))"
    by blast
  with mv tc have "reshuffleFromDiscards (caller 1) 1 ?s = Inr s' \<and>
         moves (games s' 1) = [5] \<and> topCard (games s' 1) = 5 \<and> deckIndex (games s' 1) = 0 \<and>
         mset (deck (games s' 1)) = {#3, 4#}"
    by simp
  with perm few a many top show ?thesis by blast
qed

lemma commitMove_hand:
  assumes ok: "commitMove e g cardIndex r c s = Inr s'"
    and dist: "distinct (players (games s g))"
    and two: "2 \<le> length (players (games s g))"
  shows "playerHands s' g (msg_sender e) =
           take cardIndex (playerHands s g (msg_sender e)) @
           drop (Suc cardIndex) (playerHands s g (msg_sender e))"
proof -
  let ?s0 = "closeWindowOnPlay e g s"
  let ?s7 = "playCard e g cardIndex r c ?s0"
  from commitMove_Inr [OF ok] have idx: "cardIndex < length (playerHands ?s0 g (msg_sender e))"
    and cur: "currentPlayerIndex (games s g) < length (players (games s g))"
    and me: "players (games s g) ! currentPlayerIndex (games s g) = msg_sender e"
    and body: "commitMove_body e g cardIndex r c ?s0 = Inr s'"
    by (simp_all add: closeWindowOnPlay_frame)
  note pf = playCard_fields [OF idx] closeWindowOnPlay_frame
  have h7: "playerHands ?s7 g (msg_sender e) =
      take cardIndex (playerHands s g (msg_sender e)) @
      drop (Suc cardIndex) (playerHands s g (msg_sender e))"
    by (simp add: pf)
  have i7: "currentPlayerIndex (games ?s7 g) = currentPlayerIndex (games s g)"
    and p7: "players (games ?s7 g) = players (games s g)"
    by (simp_all add: pf)
  from commitMove_body_cases [OF body] show ?thesis
  proof
    assume "playerHands ?s7 g (msg_sender e) = [] \<and>
          s' = removeFromActiveGames g
                 (upd_game g (\<lambda>gm. gm\<lparr>status := Ended, endTime := block_timestamp e,
                    winner := msg_sender e\<rparr>) ?s7)"
    then have "playerHands s' g (msg_sender e) = playerHands ?s7 g (msg_sender e)"
      by (simp add: helper_simps)
    with h7 show ?thesis by simp
  next
    assume "playerHands ?s7 g (msg_sender e) \<noteq> [] \<and> advanceToNextPlayer e g ?s7 = Inr s'"
    then have adv: "advanceToNextPlayer e g ?s7 = Inr s'" by simp
    from cur have cur7: "currentPlayerIndex (games ?s7 g) < length (players (games ?s7 g))"
      by (simp add: i7 p7)
    from nextPlayerIndex_ok [OF cur7] obtain j
      where j: "nextPlayerIndex (games ?s7 g) (length (players (games ?s7 g))) = Inr j" by blast
    from nextPlayerIndex_neq [OF j] two cur7
    have jne: "j \<noteq> currentPlayerIndex (games s g)" and jlt: "j < length (players (games s g))"
      by (simp_all add: p7 i7)
    from dist jlt cur jne
    have "players (games s g) ! j \<noteq> players (games s g) ! currentPlayerIndex (games s g)"
      by (simp add: nth_eq_iff_index_eq)
    with me have "players (games ?s7 g) ! j \<noteq> msg_sender e"
      by (simp add: p7)
    then have "msg_sender e \<noteq> players (games ?s7 g) ! j \<or> g \<noteq> g" by auto
    from advance_hands [OF adv j this] h7 show ?thesis by simp
  qed
qed

text \<open>
  C10. Removing the card at an index inside the hand deletes exactly that position: the
  result is the cards before it followed by the cards after it, one card shorter, read
  off position by position; at index 0 it is the tail, at the last index the hand without
  its last card. \<open>commitMove\<close> rejects an index outside the hand with
  \<open>CardIndexOutOfBounds\<close> and the transaction leaves the storage as it was; a successful
  \<open>commitMove\<close> among at least two distinct players leaves the caller with the hand so
  shortened.
\<close>

theorem remove_from_hand:
  "(\<forall>i < length hand.
      removeCardFromHand hand i (length hand) = take i hand @ drop (Suc i) hand \<and>
      length (removeCardFromHand hand i (length hand)) = length hand - 1 \<and>
      (\<forall>j < length hand - 1.
         removeCardFromHand hand i (length hand) ! j = (if j < i then hand ! j else hand ! Suc j))) \<and>
   (0 < length hand \<longrightarrow> removeCardFromHand hand 0 (length hand) = tl hand) \<and>
   (2 \<le> length hand \<longrightarrow> removeCardFromHand hand (length hand - 1) (length hand) = butlast hand) \<and>
   (0 < g \<and> g \<le> gameIdCounter s \<and> status (games s g) = Started \<and>
    inco_getFee e * 2 \<le> msg_value e \<and>
    currentPlayerIndex (games s g) < length (players (games s g)) \<and>
    players (games s g) ! currentPlayerIndex (games s g) = msg_sender e \<and>
    c \<le> 3 \<and> r < DECK_SIZE \<and> length (playerHands s g (msg_sender e)) \<le> cardIndex \<longrightarrow>
      commitMove e g cardIndex r c s = Inl CardIndexOutOfBounds \<and>
      transact e (CommitMove g cardIndex r c) s = s) \<and>
   (commitMove e g cardIndex r c s = Inr s' \<and> distinct (players (games s g)) \<and>
    2 \<le> length (players (games s g)) \<longrightarrow>
      cardIndex < length (playerHands s g (msg_sender e)) \<and>
      playerHands s' g (msg_sender e) =
        take cardIndex (playerHands s g (msg_sender e)) @
        drop (Suc cardIndex) (playerHands s g (msg_sender e)))"
proof -
  have del: "\<forall>i < length hand.
      removeCardFromHand hand i (length hand) = take i hand @ drop (Suc i) hand \<and>
      length (removeCardFromHand hand i (length hand)) = length hand - 1 \<and>
      (\<forall>j < length hand - 1.
         removeCardFromHand hand i (length hand) ! j = (if j < i then hand ! j else hand ! Suc j))"
    using removeCardFromHand_nth [of _ hand]
    by (simp add: removeCardFromHand_eq)
  have ends: "0 < length hand \<longrightarrow> removeCardFromHand hand 0 (length hand) = tl hand"
    "2 \<le> length hand \<longrightarrow> removeCardFromHand hand (length hand - 1) (length hand) = butlast hand"
    using removeCardFromHand_first [of hand] removeCardFromHand_last [of hand] by blast+
  have rej: "0 < g \<and> g \<le> gameIdCounter s \<and> status (games s g) = Started \<and>
    inco_getFee e * 2 \<le> msg_value e \<and>
    currentPlayerIndex (games s g) < length (players (games s g)) \<and>
    players (games s g) ! currentPlayerIndex (games s g) = msg_sender e \<and>
    c \<le> 3 \<and> r < DECK_SIZE \<and> length (playerHands s g (msg_sender e)) \<le> cardIndex \<longrightarrow>
      commitMove e g cardIndex r c s = Inl CardIndexOutOfBounds \<and>
      transact e (CommitMove g cardIndex r c) s = s"
  proof
    assume h: "0 < g \<and> g \<le> gameIdCounter s \<and> status (games s g) = Started \<and>
      inco_getFee e * 2 \<le> msg_value e \<and>
      currentPlayerIndex (games s g) < length (players (games s g)) \<and>
      players (games s g) ! currentPlayerIndex (games s g) = msg_sender e \<and>
      c \<le> 3 \<and> r < DECK_SIZE \<and> length (playerHands s g (msg_sender e)) \<le> cardIndex"
    then have "msg_sender e \<in> set (players (games s g))"
      by (metis nth_mem)
    with h have "commitMove e g cardIndex r c s = Inl CardIndexOutOfBounds"
      unfolding commitMove_def validateGame_def onlyPlayer_def
      by (simp add: Let_def closeWindowOnPlay_frame)
    then show "commitMove e g cardIndex r c s = Inl CardIndexOutOfBounds \<and>
      transact e (CommitMove g cardIndex r c) s = s"
      by (simp add: transact_def)
  qed
  have acc: "commitMove e g cardIndex r c s = Inr s' \<and> distinct (players (games s g)) \<and>
    2 \<le> length (players (games s g)) \<longrightarrow>
      cardIndex < length (playerHands s g (msg_sender e)) \<and>
      playerHands s' g (msg_sender e) =
        take cardIndex (playerHands s g (msg_sender e)) @
        drop (Suc cardIndex) (playerHands s g (msg_sender e))"
    using commitMove_Inr(10) [of e g cardIndex r c s s'] commitMove_hand [of e g cardIndex r c s s']
    by blast
  from del ends rej acc show ?thesis by blast
qed


theorem remove_from_hand_witness:
  "(1::nat) < length [10, 20, 30::nat] \<and> removeCardFromHand [10, 20, 30] 1 (length [10, 20, 30::nat]) = [10, 30] \<and>
   length (playerHands (table [0, 1] [8]) 1 (msg_sender (caller 1))) \<le> 5 \<and>
   commitMove (caller 1) 1 5 0 0 (table [0, 1] [8]) = Inl CardIndexOutOfBounds \<and>
   transact (caller 1) (CommitMove 1 5 0 0) (table [0, 1] [8]) = table [0, 1] [8] \<and>
   distinct (players (games (table [0, 1] [8]) 1)) \<and>
   2 \<le> length (players (games (table [0, 1] [8]) 1)) \<and>
   (\<exists>s'. commitMove (caller 1) 1 0 0 0 (table [0, 1] [8]) = Inr s' \<and> playerHands s' 1 1 = [1])"
proof -
  let ?t = "table [0, 1] [8]"
  have pre: "0 < (1::nat) \<and> 1 \<le> gameIdCounter ?t \<and> status (games ?t 1) = Started \<and>
      inco_getFee (caller 1) * 2 \<le> msg_value (caller 1) \<and>
      currentPlayerIndex (games ?t 1) < length (players (games ?t 1)) \<and>
      players (games ?t 1) ! currentPlayerIndex (games ?t 1) = msg_sender (caller 1) \<and>
      (0::nat) \<le> 3 \<and> 0 < DECK_SIZE \<and> length (playerHands ?t 1 (msg_sender (caller 1))) \<le> 5"
    by (simp add: table_def caller_def DECK_SIZE_def)
  have dist: "distinct (players (games ?t 1))" "2 \<le> length (players (games ?t 1))"
    by (simp_all add: table_def)
  have hand: "playerHands ?t 1 (msg_sender (caller 1)) = [0, 1]" "msg_sender (caller 1) = 1"
    by (simp_all add: table_def caller_def)
  have "\<exists>s'. commitMove (caller 1) 1 0 0 0 ?t = Inr s'"
    by (simp add: run_defs)
  then obtain s' where ok: "commitMove (caller 1) 1 0 0 0 ?t = Inr s'" by blast
  from remove_from_hand [where hand = "[10, 20, 30::nat]"]
  have "(1::nat) < length [10, 20, 30::nat] \<longrightarrow>
      removeCardFromHand [10, 20, 30::nat] 1 (length [10, 20, 30::nat]) =
        take 1 [10, 20, 30] @ drop (Suc 1) [10, 20, 30]"
    by blast
  then have a: "removeCardFromHand [10, 20, 30] 1 (length [10, 20, 30::nat]) = [10, 30::nat]"
    by simp
  have b: "commitMove (caller 1) 1 5 0 0 ?t = Inl CardIndexOutOfBounds \<and>
      transact (caller 1) (CommitMove 1 5 0 0) ?t = ?t"
    using remove_from_hand [where g = 1 and s = ?t and e = "caller 1" and c = 0 and r = 0
        and cardIndex = 5] pre
    by blast
  have "playerHands s' 1 (msg_sender (caller 1)) =
      take 0 (playerHands ?t 1 (msg_sender (caller 1))) @
      drop (Suc 0) (playerHands ?t 1 (msg_sender (caller 1)))"
    using remove_from_hand [where g = 1 and s = ?t and e = "caller 1" and c = 0 and r = 0
        and cardIndex = 0 and s' = s'] ok dist
    by blast
  with hand have c: "playerHands s' 1 1 = [1]" by simp
  from a b c ok pre dist show ?thesis by auto
qed


lemma createGame_rejects:
  "first_failed (preconditions e (CreateGame creator t) s) = Some err \<Longrightarrow>
     perform e (CreateGame creator t) s = Inl err"
  by (auto simp add: createGame_def split: if_splits)

lemma createGame_accepted:
  "perform e (CreateGame creator t) s = Inr s' \<Longrightarrow>
     first_failed (preconditions e (CreateGame creator t) s) = None"
  by (auto simp add: createGame_def split: if_splits)

lemma joinGame_rejects:
  "first_failed (preconditions e (JoinGame g j) s) = Some err \<Longrightarrow>
     perform e (JoinGame g j) s = Inl err"
  by (auto simp add: joinGame_def validateGame_def Let_def split: if_splits)

lemma joinGame_accepted:
  "perform e (JoinGame g j) s = Inr s' \<Longrightarrow>
     first_failed (preconditions e (JoinGame g j) s) = None"
  by (auto simp add: joinGame_def validateGame_def Let_def split: if_splits)

lemma startGame_rejects:
  "first_failed (preconditions e (StartGame g) s) = Some err \<Longrightarrow>
     perform e (StartGame g) s = Inl err"
  by (auto simp add: startGame_def validateGame_def Let_def split: if_splits)

lemma startGame_accepted:
  "perform e (StartGame g) s = Inr s' \<Longrightarrow>
     first_failed (preconditions e (StartGame g) s) = None"
  by (auto simp add: startGame_def validateGame_def Let_def split: if_splits)

lemma callUno_rejects:
  "first_failed (preconditions e (CallUno g) s) = Some err \<Longrightarrow>
     perform e (CallUno g) s = Inl err"
  by (auto simp add: callUno_def validateGame_def onlyPlayer_def Let_def split: if_splits)

lemma callUno_accepted:
  "perform e (CallUno g) s = Inr s' \<Longrightarrow>
     first_failed (preconditions e (CallUno g) s) = None"
  by (auto simp add: callUno_def validateGame_def onlyPlayer_def Let_def split: if_splits)

lemma penalizeUno_rejects:
  "first_failed (preconditions e (PenalizeUno g t) s) = Some err \<Longrightarrow>
     perform e (PenalizeUno g t) s = Inl err"
  by (auto simp add: penalizeUno_def validateGame_def onlyPlayer_def Let_def split: if_splits)

lemma penalizeUno_accepted:
  "perform e (PenalizeUno g t) s = Inr s' \<Longrightarrow>
     first_failed (preconditions e (PenalizeUno g t) s) = None"
  by (auto simp add: penalizeUno_def validateGame_def onlyPlayer_def Let_def split: if_splits)

lemma commitMove_rejects:
  "first_failed (preconditions e (CommitMove g i r c) s) = Some err \<Longrightarrow>
     (msg_sender e \<in> set (players (games s g)) \<Longrightarrow>
        currentPlayerIndex (games s g) < length (players (games s g))) \<Longrightarrow>
     perform e (CommitMove g i r c) s = Inl err"
  by (auto simp add: commitMove_def validateGame_def onlyPlayer_def Let_def
        closeWindowOnPlay_frame split: if_splits)

lemma commitMove_accepted:
  "perform e (CommitMove g i r c) s = Inr s' \<Longrightarrow>
     first_failed (preconditions e (CommitMove g i r c) s) = None"
  using commitMove_Inr [of e g i r c s s'] by simp

lemma drawCard_rejects:
  "first_failed (preconditions e (DrawCard g b) s) = Some err \<Longrightarrow>
     (msg_sender e \<in> set (players (games s g)) \<Longrightarrow>
        currentPlayerIndex (games s g) < length (players (games s g))) \<Longrightarrow>
     perform e (DrawCard g b) s = Inl err"
  by (auto simp add: drawCard_def validateGame_def onlyPlayer_def Let_def split: if_splits)

lemma drawCard_accepted:
  "perform e (DrawCard g b) s = Inr s' \<Longrightarrow>
     first_failed (preconditions e (DrawCard g b) s) = None"
  by (auto simp add: drawCard_def validateGame_def onlyPlayer_def Let_def
        split: if_splits sum.splits)

text \<open>
  C5. Whenever a precondition of an action is violated, the action is rejected with the
  error naming the first violated precondition, and the transaction leaves the whole
  storage (cursors, hands, moves, turn state, window state, registry lists) as it was.
  An accepted action violates no precondition, and every rejected transaction, whatever
  its error, leaves the storage as it was. The turn cursor is taken to point into the
  player list, as it does in every game the contract creates. The first precondition of
  \<open>callUno\<close>, which is not payable, is that the call carries no value.
\<close>

theorem rejections_atomic:
  assumes cursor: "\<forall>g. msg_sender e \<in> set (players (games s g)) \<longrightarrow>
      currentPlayerIndex (games s g) < length (players (games s g))"
  shows "(first_failed (preconditions e a s) = Some err \<longrightarrow>
            perform e a s = Inl err \<and> transact e a s = s) \<and>
         (perform e a s = Inr s' \<longrightarrow> first_failed (preconditions e a s) = None) \<and>
         (perform e a s = Inl err \<longrightarrow> transact e a s = s)"
proof -
  have rej: "perform e a s = Inl err" if bad: "first_failed (preconditions e a s) = Some err"
  proof (cases a)
    case (CreateGame creator t)
    with bad createGame_rejects [of e creator t s err] show ?thesis by simp
  next
    case (JoinGame g j)
    with bad joinGame_rejects [of e g j s err] show ?thesis by simp
  next
    case (StartGame g)
    with bad startGame_rejects [of e g s err] show ?thesis by simp
  next
    case (CommitMove g i r c)
    with bad commitMove_rejects [of e g i r c s err] cursor show ?thesis by simp
  next
    case (CallUno g)
    with bad callUno_rejects [of e g s err] show ?thesis by simp
  next
    case (PenalizeUno g t)
    with bad penalizeUno_rejects [of e g t s err] show ?thesis by simp
  next
    case (DrawCard g b)
    with bad drawCard_rejects [of e g b s err] cursor show ?thesis by simp
  qed
  have acc: "first_failed (preconditions e a s) = None" if ok: "perform e a s = Inr s'"
  proof (cases a)
    case (CreateGame creator t)
    with ok createGame_accepted [of e creator t s s'] show ?thesis by simp
  next
    case (JoinGame g j)
    with ok joinGame_accepted [of e g j s s'] show ?thesis by simp
  next
    case (StartGame g)
    with ok startGame_accepted [of e g s s'] show ?thesis by simp
  next
    case (CommitMove g i r c)
    with ok commitMove_accepted [of e g i r c s s'] show ?thesis by simp
  next
    case (CallUno g)
    with ok callUno_accepted [of e g s s'] show ?thesis by simp
  next
    case (PenalizeUno g t)
    with ok penalizeUno_accepted [of e g t s s'] show ?thesis by simp
  next
    case (DrawCard g b)
    with ok drawCard_accepted [of e g b s s'] show ?thesis by simp
  qed
  have same: "perform e a s = Inl err \<Longrightarrow> transact e a s = s"
    by (simp add: transact_def)
  from rej acc same show ?thesis by blast
qed


theorem rejections_atomic_witness:
  "first_failed (preconditions (caller 2) (CommitMove 1 0 8 0) (table [0, 1] [8, 9])) =
     Some NotYourTurn \<and>
   perform (caller 2) (CommitMove 1 0 8 0) (table [0, 1] [8, 9]) = Inl NotYourTurn \<and>
   transact (caller 2) (CommitMove 1 0 8 0) (table [0, 1] [8, 9]) = table [0, 1] [8, 9] \<and>
   (\<exists>s'. perform (caller 1) (CommitMove 1 0 0 0) (table [0, 1] [8, 9]) = Inr s' \<and>
      first_failed (preconditions (caller 1) (CommitMove 1 0 0 0) (table [0, 1] [8, 9])) = None) \<and>
   perform (caller 1) (CallUno 1) (table [0, 1] [8, 9]) = Inl NonPayableCall \<and>
   transact (caller 1) (CallUno 1) (table [0, 1] [8, 9]) = table [0, 1] [8, 9] \<and>
   perform (free_caller 2) (CallUno 2) (table [0, 1] [8, 9]) = Inl InvalidGameID \<and>
   transact (free_caller 2) (CallUno 2) (table [0, 1] [8, 9]) = table [0, 1] [8, 9]"
proof -
  let ?t = "table [0, 1] [8, 9]"
  have c2: "\<forall>g. msg_sender (caller 2) \<in> set (players (games ?t g)) \<longrightarrow>
        currentPlayerIndex (games ?t g) < length (players (games ?t g))"
    by (simp add: table_def caller_def emptyGame_def)
  have c1: "\<forall>g. msg_sender (caller 1) \<in> set (players (games ?t g)) \<longrightarrow>
        currentPlayerIndex (games ?t g) < length (players (games ?t g))"
    by (simp add: table_def caller_def emptyGame_def)
  have bad: "first_failed (preconditions (caller 2) (CommitMove 1 0 8 0) ?t) = Some NotYourTurn"
    by (simp add: table_def caller_def DECK_SIZE_def)
  from rejections_atomic [OF c2, of "CommitMove 1 0 8 0" NotYourTurn] bad
  have rej: "perform (caller 2) (CommitMove 1 0 8 0) ?t = Inl NotYourTurn"
    "transact (caller 2) (CommitMove 1 0 8 0) ?t = ?t"
    by blast+
  have "\<exists>s'. commitMove (caller 1) 1 0 0 0 ?t = Inr s'"
    by (simp add: run_defs)
  then obtain s' where ok: "perform (caller 1) (CommitMove 1 0 0 0) ?t = Inr s'"
    by auto
  from rejections_atomic [OF c1, of "CommitMove 1 0 0 0" _ s'] ok
  have acc: "first_failed (preconditions (caller 1) (CommitMove 1 0 0 0) ?t) = None"
    by blast
  have "first_failed (preconditions (caller 1) (CallUno 1) ?t) = Some NonPayableCall"
    by (simp add: caller_def)
  with rejections_atomic [OF c1, of "CallUno 1" NonPayableCall]
  have paid: "perform (caller 1) (CallUno 1) ?t = Inl NonPayableCall"
    "transact (caller 1) (CallUno 1) ?t = ?t"
    by blast+
  have f2: "\<forall>g. msg_sender (free_caller 2) \<in> set (players (games ?t g)) \<longrightarrow>
        currentPlayerIndex (games ?t g) < length (players (games ?t g))"
    by (simp add: table_def free_caller_def emptyGame_def)
  have "first_failed (preconditions (free_caller 2) (CallUno 2) ?t) = Some InvalidGameID"
    by (simp add: table_def free_caller_def)
  with rejections_atomic [OF f2, of "CallUno 2" InvalidGameID]
  have free: "perform (free_caller 2) (CallUno 2) ?t = Inl InvalidGameID"
    "transact (free_caller 2) (CallUno 2) ?t = ?t"
    by blast+
  from bad rej ok acc paid free show ?thesis by blast
qed

lemma forceDrawCards_outcome:
  "(\<exists>s1. forceDrawCards e g p n s = Inr s1) \<or>
   forceDrawCards e g p n s = Inl NoCardsLeftToReshuffle"
  using forceDrawCards_error [of e g p n s] by (cases "forceDrawCards e g p n s") auto

text \<open>A turn advance between at least one player in range fails only for want of cards.\<close>

lemma advance_outcome:
  assumes "currentPlayerIndex (games s g) < length (players (games s g))"
  shows "(\<exists>s2. advanceToNextPlayer e g s = Inr s2) \<or>
         advanceToNextPlayer e g s = Inl NoCardsLeftToReshuffle"
  using advance_error [of e g s _, OF _ assms] by (cases "advanceToNextPlayer e g s") auto

text \<open>With nothing to draw, or with the cards in the pile, the advance succeeds.\<close>

lemma advance_succeeds:
  assumes cur: "currentPlayerIndex (games s g) < length (players (games s g))"
    and cards: "skipNextPlayer (games s g) \<and> 0 < pendingDraws (games s g) \<longrightarrow>
        deckIndex (games s g) + pendingDraws (games s g) \<le> length (deck (games s g))"
  shows "\<exists>s2. advanceToNextPlayer e g s = Inr s2"
proof -
  let ?n = "length (players (games s g))"
  from nextPlayerIndex_ok [OF cur] obtain i
    where i: "nextPlayerIndex (games s g) ?n = Inr i" by blast
  from nextPlayerIndex_in_range [OF i cur] have ilt: "i < ?n" .
  let ?s1 = "upd_game g (\<lambda>gm. gm\<lparr>currentPlayerIndex := i\<rparr>) s"
  show ?thesis
  proof (cases "skipNextPlayer (games s g)")
    case False
    with i ilt show ?thesis
      by (simp add: advanceToNextPlayer_def Let_def helper_simps)
  next
    case True
    let ?s1' = "upd_game g (\<lambda>gm. gm\<lparr>skipNextPlayer := False\<rparr>) ?s1"
    have "\<exists>s3. (if pendingDraws (games ?s1' g) > 0
                 then (case forceDrawCards e g (players (games ?s1 g) ! currentPlayerIndex (games ?s1 g))
                          (pendingDraws (games ?s1' g)) ?s1' of
                         Inl err \<Rightarrow> Inl err
                       | Inr s2 \<Rightarrow> Inr (upd_game g (\<lambda>gm. gm\<lparr>pendingDraws := 0\<rparr>) s2))
                 else Inr ?s1') = Inr s3 \<and>
               players (games s3 g) = players (games s g) \<and>
               currentPlayerIndex (games s3 g) = i"
    proof (cases "0 < pendingDraws (games s g)")
      case False
      then show ?thesis by (simp add: helper_simps)
    next
      case pd: True
      with True cards have "deckIndex (games ?s1' g) + pendingDraws (games ?s1' g)
          \<le> length (deck (games ?s1' g))"
        by (simp add: helper_simps)
      from forceDrawCards_enough [OF this] obtain sd
        where sd: "forceDrawCards e g (players (games ?s1 g) ! currentPlayerIndex (games ?s1 g))
            (pendingDraws (games ?s1' g)) ?s1' = Inr sd" by blast
      from forceDrawCards_frame [OF sd] have "players (games sd g) = players (games s g)"
        "currentPlayerIndex (games sd g) = i"
        by (simp_all add: helper_simps)
      with sd pd show ?thesis by (simp add: helper_simps)
    qed
    then obtain s3 where s3: "(if pendingDraws (games ?s1' g) > 0
                 then (case forceDrawCards e g (players (games ?s1 g) ! currentPlayerIndex (games ?s1 g))
                          (pendingDraws (games ?s1' g)) ?s1' of
                         Inl err \<Rightarrow> Inl err
                       | Inr s2 \<Rightarrow> Inr (upd_game g (\<lambda>gm. gm\<lparr>pendingDraws := 0\<rparr>) s2))
                 else Inr ?s1') = Inr s3"
      and p3: "players (games s3 g) = players (games s g)"
      and i3: "currentPlayerIndex (games s3 g) = i" by blast
    from ilt p3 i3 have cur3: "currentPlayerIndex (games s3 g) < length (players (games s3 g))"
      by simp
    from nextPlayerIndex_ok [OF cur3] obtain j
      where j: "nextPlayerIndex (games s3 g) (length (players (games s3 g))) = Inr j" by blast
    from nextPlayerIndex_in_range [OF j cur3] have jlt: "j < ?n" by (simp add: p3)
    have "skipAndDraw e g ?n ?s1 = Inr (upd_game g (\<lambda>gm. gm\<lparr>currentPlayerIndex := j\<rparr>) s3)"
      using ilt s3 j p3 unfolding skipAndDraw_def Let_def
      by (simp add: helper_simps)
    with i True jlt p3 show ?thesis
      by (simp add: advanceToNextPlayer_def Let_def helper_simps)
  qed
qed


lemma forceDrawOne_top:
  "forceDrawOne e g p s = Inr s1 \<Longrightarrow> top_is_last s \<Longrightarrow> top_is_last s1"
  unfolding forceDrawOne_def reshuffleFromDiscards_def top_is_last_def
  by (auto simp add: Let_def helper_simps split: if_splits sum.splits)

lemma forceDrawLoop_top:
  "forceDrawLoop e g p n s = Inr s1 \<Longrightarrow> top_is_last s \<Longrightarrow> top_is_last s1"
  by (induction n arbitrary: s) (auto split: sum.splits dest: forceDrawOne_top)

lemma forceDrawCards_top:
  "forceDrawCards e g p n s = Inr s1 \<Longrightarrow> top_is_last s \<Longrightarrow> top_is_last s1"
  unfolding forceDrawCards_def
  by (auto simp add: top_is_last_def helper_simps split: sum.splits dest!: forceDrawLoop_top)

lemma advance_top:
  "advanceToNextPlayer e g s = Inr s2 \<Longrightarrow> top_is_last s \<Longrightarrow> top_is_last s2"
  unfolding advanceToNextPlayer_def skipAndDraw_def
  by (auto simp add: Let_def top_is_last_def helper_simps split: sum.splits if_splits
        dest!: forceDrawCards_top)

lemma forceDrawCards_other:
  "forceDrawCards e g p n s = Inr s1 \<Longrightarrow> g' \<noteq> g \<Longrightarrow> games s1 g' = games s g'"
  using forceDrawCards_fields(1) [of e g p n s s1 g'] by simp

lemma advance_other:
  "advanceToNextPlayer e g s = Inr s2 \<Longrightarrow> g' \<noteq> g \<Longrightarrow> games s2 g' = games s g'"
  unfolding advanceToNextPlayer_def skipAndDraw_def
  by (auto simp add: Let_def helper_simps split: sum.splits if_splits
        dest!: forceDrawCards_other [where g' = g'])

lemma advance_turn_state:
  "advanceToNextPlayer e g s = Inr s2 \<Longrightarrow>
     \<not> skipNextPlayer (games s2 g) \<and>
     (skipNextPlayer (games s g) \<or> pendingDraws (games s g) = 0 \<longrightarrow>
        pendingDraws (games s2 g) = 0)"
  unfolding advanceToNextPlayer_def skipAndDraw_def
  by (auto simp add: Let_def helper_simps split: sum.splits if_splits
        dest!: forceDrawCards_frame)


lemma well_formed_top: "well_formed s \<Longrightarrow> top_is_last s"
  by (simp add: well_formed_def game_ok_def top_is_last_def)

lemma well_formed_game: "well_formed s \<Longrightarrow> game_ok s g"
  by (simp add: well_formed_def)

lemma createGame_fields:
  assumes ok: "createGame e creator t s = Inr (newId, s')"
  shows "newId = gameIdCounter s + 1"
    and "\<And>g. g \<noteq> newId \<Longrightarrow> games s' g = games s g"
    and "players (games s' newId) = [creator]"
    and "status (games s' newId) = NotStarted"
    and "currentPlayerIndex (games s' newId) = 0"
    and "moves (games s' newId) = []"
    and "pendingDraws (games s' newId) = 0"
    and "\<not> skipNextPlayer (games s' newId)"
    and "deck (games s' newId) = ePreview_shuffledRange e"
    and "deckIndex (games s' newId) = 8"
    and "topCard (games s' newId) = ePreview_shuffledRange e ! 7"
    and "playerHands s' = (playerHands s)(newId := (playerHands s newId)
           (creator := take 7 (ePreview_shuffledRange e)))"
    and "unoPenaltyApplied s' = unoPenaltyApplied s"
    and "hasCalledUno s' = hasCalledUno s"
    and "unoWindowOpen s' = unoWindowOpen s"
    and "unoWindowPlayer s' = unoWindowPlayer s"
    and "gameIdCounter s' = gameIdCounter s + 1"
proof -
  from ok have fee: "inco_getFee e * 2 \<le> msg_value e" and t: "t < DECK_SIZE"
    by (simp_all add: createGame_def split: if_splits)
  note defs = createGame_def Let_def helper_simps dealHandToPlayer_def slice_def
    getEuint256_def INITIAL_HAND_SIZE_def
  from ok fee t show "newId = gameIdCounter s + 1" by (simp add: defs)
  from ok fee t show "\<And>g. g \<noteq> newId \<Longrightarrow> games s' g = games s g" by (auto simp add: defs)
  from ok fee t show "players (games s' newId) = [creator]" by (auto simp add: defs)
  from ok fee t show "status (games s' newId) = NotStarted" by (auto simp add: defs)
  from ok fee t show "currentPlayerIndex (games s' newId) = 0" by (auto simp add: defs)
  from ok fee t show "moves (games s' newId) = []" by (auto simp add: defs)
  from ok fee t show "pendingDraws (games s' newId) = 0" by (auto simp add: defs)
  from ok fee t show "\<not> skipNextPlayer (games s' newId)" by (auto simp add: defs)
  from ok fee t show "deck (games s' newId) = ePreview_shuffledRange e" by (auto simp add: defs)
  from ok fee t show "deckIndex (games s' newId) = 8" by (auto simp add: defs)
  from ok fee t show "topCard (games s' newId) = ePreview_shuffledRange e ! 7"
    by (auto simp add: defs)
  from ok fee t show "playerHands s' = (playerHands s)(newId := (playerHands s newId)
           (creator := take 7 (ePreview_shuffledRange e)))"
    by (auto simp add: defs)
  from ok fee t show "unoPenaltyApplied s' = unoPenaltyApplied s" by (auto simp add: defs)
  from ok fee t show "hasCalledUno s' = hasCalledUno s" by (auto simp add: defs)
  from ok fee t show "unoWindowOpen s' = unoWindowOpen s" by (auto simp add: defs)
  from ok fee t show "unoWindowPlayer s' = unoWindowPlayer s" by (auto simp add: defs)
  from ok fee t show "gameIdCounter s' = gameIdCounter s + 1" by (auto simp add: defs)
qed

lemma createGame_wf:
  assumes ok: "createGame e creator t s = Inr (newId, s')" and wf: "well_formed s"
  shows "well_formed s'"
  unfolding well_formed_def
proof
  fix g
  note f = createGame_fields [OF ok]
  show "game_ok s' g"
  proof (cases "g = newId")
    case True
    with f(3-8) well_formed_game [OF wf, of g] show ?thesis
      by (simp add: game_ok_def f(13))
  next
    case False
    with f(2) [of g] well_formed_game [OF wf, of g] show ?thesis
      by (simp add: game_ok_def f(13))
  qed
qed


lemma joinGame_wf:
  assumes ok: "joinGame e g j s = Inr s'" and wf: "well_formed s"
  shows "well_formed s'"
  unfolding well_formed_def
proof
  fix g'
  from ok show "game_ok s' g'"
    using well_formed_game [OF wf, of g'] unfolding joinGame_def validateGame_def game_ok_def
    by (cases "g' = g")
       (auto simp add: Let_def helper_simps dealHandToPlayer_def split: if_splits)
qed

lemma startGame_wf:
  assumes ok: "startGame e g s = Inr s'" and wf: "well_formed s"
  shows "well_formed s'"
  unfolding well_formed_def
proof
  fix g'
  from ok show "game_ok s' g'"
    using well_formed_game [OF wf, of g'] unfolding startGame_def validateGame_def game_ok_def
    by (cases "g' = g") (auto simp add: Let_def helper_simps split: if_splits)
qed

lemma callUno_wf:
  assumes ok: "callUno e g s = Inr s'" and wf: "well_formed s"
  shows "well_formed s'"
  unfolding well_formed_def
proof
  fix g'
  from ok show "game_ok s' g'"
    using well_formed_game [OF wf, of g']
    unfolding callUno_def validateGame_def onlyPlayer_def game_ok_def
    by (auto simp add: Let_def helper_simps split: if_splits)
qed

lemma forceDrawCards_wf:
  assumes ok: "forceDrawCards e g p n s = Inr s1"
    and wf: "well_formed (set_unoPenaltyApplied g p False s)"
  shows "well_formed s1"
  unfolding well_formed_def
proof
  fix g'
  from wf have "top_is_last s"
    by (simp add: well_formed_def game_ok_def top_is_last_def helper_simps)
  from forceDrawCards_top [OF ok this] have "top_is_last s1" .
  with forceDrawCards_frame [OF ok] well_formed_game [OF wf, of g'] show "game_ok s1 g'"
    unfolding game_ok_def top_is_last_def by (simp add: helper_simps)
qed

lemma penalizeUno_wf:
  assumes ok: "penalizeUno e g t s = Inr s'" and wf: "well_formed s"
  shows "well_formed s'"
proof -
  let ?s2 = "set_unoPenaltyApplied g t True (set_unoWindowOpen g False s)"
  from ok have fd: "forceDrawCards e g t 2 ?s2 = Inr s'"
    unfolding penalizeUno_def
    by (simp add: Let_def split: sum.splits if_splits)
  from wf have "well_formed (set_unoPenaltyApplied g t False ?s2)"
    by (simp add: well_formed_def game_ok_def helper_simps)
  from forceDrawCards_wf [OF fd this] show ?thesis .
qed


lemma advance_wf:
  assumes adv: "advanceToNextPlayer e g s = Inr s2"
    and pre: "well_formed (upd_game g (\<lambda>gm. gm\<lparr>pendingDraws := 0, skipNextPlayer := False\<rparr>) s)"
    and pd: "skipNextPlayer (games s g) \<or> pendingDraws (games s g) = 0"
  shows "well_formed s2"
  unfolding well_formed_def
proof
  fix g'
  let ?s0 = "upd_game g (\<lambda>gm. gm\<lparr>pendingDraws := 0, skipNextPlayer := False\<rparr>) s"
  have "top_is_last s"
    unfolding top_is_last_def
  proof
    fix h
    from well_formed_game [OF pre, of h]
    show "moves (games s h) \<noteq> [] \<longrightarrow> topCard (games s h) = last (moves (games s h))"
      by (cases "h = g") (simp_all add: game_ok_def helper_simps)
  qed
  from advance_top [OF adv this] have top: "top_is_last s2" .
  note fr = advance_frame [OF adv]
  from fr have pen: "\<And>p. unoPenaltyApplied s2 g' p \<Longrightarrow> unoPenaltyApplied s g' p" by blast
  from well_formed_game [OF pre, of g'] have nopen: "\<And>p. \<not> unoPenaltyApplied s g' p"
    by (cases "g' = g") (simp_all add: game_ok_def helper_simps)
  from pen nopen have np2: "\<forall>p. \<not> unoPenaltyApplied s2 g' p" by blast
  show "game_ok s2 g'"
  proof (cases "g' = g")
    case False
    from advance_other [OF adv False] have "games s2 g' = games s g'" .
    with well_formed_game [OF pre, of g'] False np2 show ?thesis
      by (simp add: game_ok_def helper_simps)
  next
    case True
    from fr have same: "players (games s2 g) = players (games s g)"
      "status (games s2 g) = status (games s g)"
      "currentPlayerIndex (games s2 g) < length (players (games s g))" by simp_all
    from advance_turn_state [OF adv] pd
    have ts: "\<not> skipNextPlayer (games s2 g)" "pendingDraws (games s2 g) = 0" by blast+
    from top have tl: "moves (games s2 g) \<noteq> [] \<longrightarrow> topCard (games s2 g) = last (moves (games s2 g))"
      by (simp add: top_is_last_def)
    from well_formed_game [OF pre, of g] same ts tl np2 True show ?thesis
      by (simp add: game_ok_def helper_simps)
  qed
qed

lemma reshuffle_wf:
  assumes ok: "reshuffleFromDiscards e g s = Inr s1" and wf: "well_formed s"
  shows "well_formed s1"
  unfolding well_formed_def
proof
  fix g'
  from ok show "game_ok s1 g'"
    using well_formed_game [OF wf, of g'] unfolding reshuffleFromDiscards_def game_ok_def
    by (cases "g' = g") (auto simp add: Let_def helper_simps split: if_splits)
qed

lemma closeWindowOnDraw_frame:
  "games (closeWindowOnDraw e g s) = games s"
  "playerHands (closeWindowOnDraw e g s) = playerHands s"
  "hasCalledUno (closeWindowOnDraw e g s) = hasCalledUno s"
  "unoPenaltyApplied (closeWindowOnDraw e g s) = unoPenaltyApplied s"
  "unoWindowPlayer (closeWindowOnDraw e g s) = unoWindowPlayer s"
  "unoWindowOpen (closeWindowOnDraw e g s) = (unoWindowOpen s)(g := False)"
  "gameIdCounter (closeWindowOnDraw e g s) = gameIdCounter s"
  "activeGames (closeWindowOnDraw e g s) = activeGames s"
  "notStartedGames (closeWindowOnDraw e g s) = notStartedGames s"
  by (auto simp add: closeWindowOnDraw_def Let_def helper_defs fun_eq_iff)

text \<open>The state of \<open>drawCard\<close> after the card is drawn and before the turn may advance.\<close>

lemma drawCard_cases:
  assumes ok: "drawCard e g endTurn s = Inr s'"
  obtains s1 where
    "(deckIndex (games s g) \<ge> length (deck (games s g)) \<and> reshuffleFromDiscards e g s = Inr s1) \<or>
     (deckIndex (games s g) < length (deck (games s g)) \<and> s1 = s)"
    "(endTurn \<and> advanceToNextPlayer e g
        (set_hand g (msg_sender e)
          (playerHands s1 g (msg_sender e) @ [deck (games s1 g) ! deckIndex (games s1 g)])
          (upd_game g (\<lambda>gm. gm\<lparr>deckIndex := deckIndex gm + 1\<rparr>) (closeWindowOnDraw e g s1))) = Inr s') \<or>
     (\<not> endTurn \<and> s' =
        set_hand g (msg_sender e)
          (playerHands s1 g (msg_sender e) @ [deck (games s1 g) ! deckIndex (games s1 g)])
          (upd_game g (\<lambda>gm. gm\<lparr>deckIndex := deckIndex gm + 1\<rparr>) (closeWindowOnDraw e g s1)))"
  using ok unfolding drawCard_def validateGame_def onlyPlayer_def
  by (auto simp add: Let_def helper_simps closeWindowOnDraw_frame getEuint256_def
        split: if_splits sum.splits)

lemma drawCard_wf:
  assumes ok: "drawCard e g endTurn s = Inr s'" and wf: "well_formed s"
  shows "well_formed s'"
proof -
  from ok obtain s1 where
    r: "(deckIndex (games s g) \<ge> length (deck (games s g)) \<and> reshuffleFromDiscards e g s = Inr s1) \<or>
     (deckIndex (games s g) < length (deck (games s g)) \<and> s1 = s)"
    and a: "(endTurn \<and> advanceToNextPlayer e g
        (set_hand g (msg_sender e)
          (playerHands s1 g (msg_sender e) @ [deck (games s1 g) ! deckIndex (games s1 g)])
          (upd_game g (\<lambda>gm. gm\<lparr>deckIndex := deckIndex gm + 1\<rparr>) (closeWindowOnDraw e g s1))) = Inr s') \<or>
     (\<not> endTurn \<and> s' =
        set_hand g (msg_sender e)
          (playerHands s1 g (msg_sender e) @ [deck (games s1 g) ! deckIndex (games s1 g)])
          (upd_game g (\<lambda>gm. gm\<lparr>deckIndex := deckIndex gm + 1\<rparr>) (closeWindowOnDraw e g s1)))"
    by (rule drawCard_cases)
  let ?s4 = "set_hand g (msg_sender e)
          (playerHands s1 g (msg_sender e) @ [deck (games s1 g) ! deckIndex (games s1 g)])
          (upd_game g (\<lambda>gm. gm\<lparr>deckIndex := deckIndex gm + 1\<rparr>) (closeWindowOnDraw e g s1))"
  from r wf have wf1: "well_formed s1" using reshuffle_wf by blast
  from ok have st: "status (games s g) = Started"
    unfolding drawCard_def validateGame_def by (simp split: if_splits)
  have wf4: "well_formed ?s4"
    unfolding well_formed_def
  proof
    fix g'
    from well_formed_game [OF wf1, of g'] show "game_ok ?s4 g'"
      by (cases "g' = g") (simp_all add: game_ok_def helper_simps closeWindowOnDraw_frame)
  qed
  from a show ?thesis
  proof
    assume "\<not> endTurn \<and> s' = ?s4"
    with wf4 show ?thesis by simp
  next
    assume "endTurn \<and> advanceToNextPlayer e g ?s4 = Inr s'"
    then have adv: "advanceToNextPlayer e g ?s4 = Inr s'" by simp
    from r st have st1: "status (games s1 g) = Started"
      unfolding reshuffleFromDiscards_def
      by (auto simp add: Let_def helper_simps split: if_splits)
    from well_formed_game [OF wf1, of g] st1 have z: "pendingDraws (games s1 g) = 0"
      "\<not> skipNextPlayer (games s1 g)"
      by (simp_all add: game_ok_def)
    have pre: "well_formed
        (upd_game g (\<lambda>gm. gm\<lparr>pendingDraws := 0, skipNextPlayer := False\<rparr>) ?s4)"
      unfolding well_formed_def
    proof
      fix g'
      from well_formed_game [OF wf4, of g']
      show "game_ok (upd_game g (\<lambda>gm. gm\<lparr>pendingDraws := 0, skipNextPlayer := False\<rparr>) ?s4) g'"
        by (cases "g' = g") (simp_all add: game_ok_def helper_simps closeWindowOnDraw_frame)
    qed
    from z have pd: "skipNextPlayer (games ?s4 g) \<or> pendingDraws (games ?s4 g) = 0"
      by (simp add: helper_simps closeWindowOnDraw_frame)
    from advance_wf [OF adv pre pd] show ?thesis .
  qed
qed


lemma commitMove_wf:
  assumes ok: "commitMove e g cardIndex r c s = Inr s'" and wf: "well_formed s"
  shows "well_formed s'"
proof -
  let ?s0 = "closeWindowOnPlay e g s"
  let ?s7 = "playCard e g cardIndex r c ?s0"
  from commitMove_Inr [OF ok] have idx: "cardIndex < length (playerHands ?s0 g (msg_sender e))"
    and st: "status (games s g) = Started"
    and body: "commitMove_body e g cardIndex r c ?s0 = Inr s'"
    by (simp_all add: closeWindowOnPlay_frame)
  note pf = playCard_fields [OF idx] closeWindowOnPlay_frame
  from well_formed_game [OF wf, of g] st have z: "pendingDraws (games s g) = 0"
    "\<not> skipNextPlayer (games s g)"
    by (simp_all add: game_ok_def)
  have ok7: "game_ok (upd_game g f ?s7) g'"
    if f: "\<And>gm. players (f gm) = players gm" "\<And>gm. currentPlayerIndex (f gm) = currentPlayerIndex gm"
      "\<And>gm. moves (f gm) = moves gm" "\<And>gm. topCard (f gm) = topCard gm"
      "status (f (games ?s7 g)) = Ended \<or>
       status (f (games ?s7 g)) = Started \<and> pendingDraws (f (games ?s7 g)) = 0 \<and>
         \<not> skipNextPlayer (f (games ?s7 g))"
    for f g'
  proof (cases "g' = g")
    case False
    with well_formed_game [OF wf, of g'] show ?thesis
      by (simp add: game_ok_def helper_simps pf)
  next
    case True
    with well_formed_game [OF wf, of g] f st show ?thesis
      by (auto simp add: game_ok_def helper_simps pf)
  qed
  from commitMove_body_cases [OF body] show ?thesis
  proof
    assume w: "playerHands ?s7 g (msg_sender e) = [] \<and>
          s' = removeFromActiveGames g
                 (upd_game g (\<lambda>gm. gm\<lparr>status := Ended, endTime := block_timestamp e,
                    winner := msg_sender e\<rparr>) ?s7)"
    have "game_ok (upd_game g (\<lambda>gm. gm\<lparr>status := Ended, endTime := block_timestamp e,
                    winner := msg_sender e\<rparr>) ?s7) g'" for g'
      by (rule ok7) simp_all
    with w show ?thesis
      by (simp add: well_formed_def game_ok_def helper_simps)
  next
    assume "playerHands ?s7 g (msg_sender e) \<noteq> [] \<and> advanceToNextPlayer e g ?s7 = Inr s'"
    then have adv: "advanceToNextPlayer e g ?s7 = Inr s'" by simp
    have "game_ok (upd_game g (\<lambda>gm. gm\<lparr>pendingDraws := 0, skipNextPlayer := False\<rparr>) ?s7) g'"
      for g'
      by (rule ok7) (simp_all add: pf st)
    then have pre: "well_formed
        (upd_game g (\<lambda>gm. gm\<lparr>pendingDraws := 0, skipNextPlayer := False\<rparr>) ?s7)"
      by (simp add: well_formed_def)
    from z have pd: "skipNextPlayer (games ?s7 g) \<or> pendingDraws (games ?s7 g) = 0"
      by (simp add: pf)
    from advance_wf [OF adv pre pd] show ?thesis .
  qed
qed

lemma deployed_wf: "well_formed deployed"
  by (simp add: well_formed_def game_ok_def deployed_def emptyGame_def)

lemma perform_wf:
  assumes ok: "perform e a s = Inr s'" and wf: "well_formed s"
  shows "well_formed s'"
proof (cases a)
  case (CreateGame creator t)
  with ok obtain newId where "createGame e creator t s = Inr (newId, s')"
    by (auto split: sum.splits)
  from createGame_wf [OF this wf] show ?thesis .
next
  case (JoinGame g j)
  with ok joinGame_wf [OF _ wf] show ?thesis by simp
next
  case (StartGame g)
  with ok startGame_wf [OF _ wf] show ?thesis by simp
next
  case (CommitMove g i r c)
  with ok commitMove_wf [OF _ wf] show ?thesis by simp
next
  case (CallUno g)
  with ok callUno_wf [OF _ wf] show ?thesis by simp
next
  case (PenalizeUno g t)
  with ok penalizeUno_wf [OF _ wf] show ?thesis by simp
next
  case (DrawCard g b)
  with ok drawCard_wf [OF _ wf] show ?thesis by simp
qed

lemma transact_wf: "well_formed s \<Longrightarrow> well_formed (transact e a s)"
  using perform_wf [of e a s] by (cases "perform e a s") (simp_all add: transact_def)

text \<open>Every reachable storage is well formed.\<close>

lemma reachable_well_formed: "reachable s \<Longrightarrow> well_formed s"
  by (induction rule: reachable.induct) (simp_all add: deployed_wf transact_wf)

lemma reachable_play:
  "reachable s \<Longrightarrow> \<forall>(e, a) \<in> set tr. fair_env e \<Longrightarrow> reachable (play tr s)"
proof (induction tr arbitrary: s)
  case Nil
  then show ?case by simp
next
  case (Cons x tr)
  obtain e a where x: "x = (e, a)" by (cases x)
  with Cons.prems have "fair_env e" and rest: "\<forall>(e, a) \<in> set tr. fair_env e" by simp_all
  with Cons.prems have "reachable (transact e a s)" by (simp add: reachable.step)
  from Cons.IH [OF this rest] x show ?case by simp
qed

lemma sortedDeck_upt: "sortedDeck = [0..<DECK_SIZE]"
  by code_simp

lemma fair_caller: "fair_env (caller a)"
  by (simp add: fair_env_def caller_def sortedDeck_upt)


lemma commitMove_top:
  assumes ok: "commitMove e g cardIndex r c s = Inr s'"
  shows "topCardId (games s' g) = r"
    and "topCard (games s' g) = playerHands s g (msg_sender e) ! cardIndex"
    and "unoWindowOpen s' g =
           (length (playerHands s g (msg_sender e)) = 2 \<and> \<not> hasCalledUno s g (msg_sender e))"
    and "length (playerHands s g (msg_sender e)) = 2 \<Longrightarrow> \<not> hasCalledUno s g (msg_sender e) \<Longrightarrow>
           unoWindowPlayer s' g = msg_sender e"
    and "\<And>g'. g' \<noteq> g \<Longrightarrow> unoWindowOpen s' g' = unoWindowOpen s g'"
    and "\<not> hasCalledUno s' g (msg_sender e)"
    and "\<And>q. unoPenaltyApplied s g q = False \<Longrightarrow> unoPenaltyApplied s' g q = False"
proof -
  let ?s0 = "closeWindowOnPlay e g s"
  let ?s7 = "playCard e g cardIndex r c ?s0"
  from commitMove_Inr [OF ok] have idx: "cardIndex < length (playerHands ?s0 g (msg_sender e))"
    and body: "commitMove_body e g cardIndex r c ?s0 = Inr s'"
    by (simp_all add: closeWindowOnPlay_frame)
  note pf = playCard_fields [OF idx] closeWindowOnPlay_frame
  have t7: "topCardId (games ?s7 g) = r"
    "topCard (games ?s7 g) = playerHands s g (msg_sender e) ! cardIndex"
    "unoWindowOpen ?s7 g =
       (length (playerHands s g (msg_sender e)) = 2 \<and> \<not> hasCalledUno s g (msg_sender e))"
    "\<not> hasCalledUno ?s7 g (msg_sender e)"
    by (simp_all add: pf)
  have p7: "length (playerHands s g (msg_sender e)) = 2 \<Longrightarrow> \<not> hasCalledUno s g (msg_sender e) \<Longrightarrow>
           unoWindowPlayer ?s7 g = msg_sender e"
    by (simp add: pf)
  have o7: "\<And>g'. g' \<noteq> g \<Longrightarrow> unoWindowOpen ?s7 g' = unoWindowOpen s g'"
    by (simp add: pf)
  have n7: "\<And>q. unoPenaltyApplied s g q = False \<Longrightarrow> unoPenaltyApplied ?s7 g q = False"
    by (simp add: pf)
  from commitMove_body_cases [OF body]
  have fr: "topCardId (games s' g) = topCardId (games ?s7 g) \<and>
      topCard (games s' g) = topCard (games ?s7 g) \<and>
      unoWindowOpen s' = unoWindowOpen ?s7 \<and> unoWindowPlayer s' = unoWindowPlayer ?s7 \<and>
      (\<forall>g' q. hasCalledUno s' g' q \<longrightarrow> hasCalledUno ?s7 g' q) \<and>
      (\<forall>g' q. unoPenaltyApplied s' g' q \<longrightarrow> unoPenaltyApplied ?s7 g' q)"
  proof
    assume "playerHands ?s7 g (msg_sender e) = [] \<and>
          s' = removeFromActiveGames g
                 (upd_game g (\<lambda>gm. gm\<lparr>status := Ended, endTime := block_timestamp e,
                    winner := msg_sender e\<rparr>) ?s7)"
    then show ?thesis by (simp add: helper_simps)
  next
    assume "playerHands ?s7 g (msg_sender e) \<noteq> [] \<and> advanceToNextPlayer e g ?s7 = Inr s'"
    then have "advanceToNextPlayer e g ?s7 = Inr s'" by simp
    from advance_frame [OF this] show ?thesis by simp
  qed
  from fr t7 show "topCardId (games s' g) = r"
    and "topCard (games s' g) = playerHands s g (msg_sender e) ! cardIndex"
    and "unoWindowOpen s' g =
           (length (playerHands s g (msg_sender e)) = 2 \<and> \<not> hasCalledUno s g (msg_sender e))"
    by simp_all
  from fr p7 show "length (playerHands s g (msg_sender e)) = 2 \<Longrightarrow>
      \<not> hasCalledUno s g (msg_sender e) \<Longrightarrow> unoWindowPlayer s' g = msg_sender e"
    by simp
  from fr o7 show "\<And>g'. g' \<noteq> g \<Longrightarrow> unoWindowOpen s' g' = unoWindowOpen s g'"
    by simp
  from fr t7 show "\<not> hasCalledUno s' g (msg_sender e)" by blast
  from fr n7 show "\<And>q. unoPenaltyApplied s g q = False \<Longrightarrow> unoPenaltyApplied s' g q = False"
    by blast
qed

text \<open>
  When the preconditions hold in a well-formed storage, \<open>commitMove\<close> succeeds or fails for
  want of cards; it succeeds when the hand is played out, when the revealed card forces
  no draw, or when the pile holds four cards.
\<close>

lemma commitMove_outcome:
  assumes wf: "well_formed s"
    and g: "0 < g" "g \<le> gameIdCounter s" and st: "status (games s g) = Started"
    and fee: "inco_getFee e * 2 \<le> msg_value e"
    and turn: "players (games s g) ! currentPlayerIndex (games s g) = msg_sender e"
    and c: "c \<le> 3" and r: "r < DECK_SIZE"
    and idx: "cardIndex < length (playerHands s g (msg_sender e))"
    and playable: "isCardPlayableInternal r (topCardId (games s g)) (currentColor (games s g))"
  shows "(\<exists>s'. commitMove e g cardIndex r c s = Inr s') \<or>
         commitMove e g cardIndex r c s = Inl NoCardsLeftToReshuffle"
    and "getCardType r \<noteq> CARD_TYPE_DRAW_TWO \<and> getCardType r \<noteq> CARD_TYPE_WILD_DRAW_FOUR \<or>
         length (playerHands s g (msg_sender e)) = 1 \<or>
         deckIndex (games s g) + 4 \<le> length (deck (games s g)) \<Longrightarrow>
           \<exists>s'. commitMove e g cardIndex r c s = Inr s'"
proof -
  let ?s0 = "closeWindowOnPlay e g s"
  let ?s7 = "playCard e g cardIndex r c ?s0"
  from well_formed_game [OF wf, of g] st
  have cur: "currentPlayerIndex (games s g) < length (players (games s g))"
    and z: "pendingDraws (games s g) = 0"
    by (auto simp add: game_ok_def)
  have eq: "commitMove e g cardIndex r c s = commitMove_body e g cardIndex r c ?s0"
    using g st fee cur turn c r idx playable by (rule commitMove_accepts)
  from idx have idx0: "cardIndex < length (playerHands ?s0 g (msg_sender e))"
    by (simp add: closeWindowOnPlay_frame)
  note pf = playCard_fields [OF idx0] closeWindowOnPlay_frame
  from cur have cur7: "currentPlayerIndex (games ?s7 g) < length (players (games ?s7 g))"
    by (simp add: pf)
  have body: "commitMove_body e g cardIndex r c ?s0 =
      (if playerHands ?s7 g (msg_sender e) = [] then
         Inr (removeFromActiveGames g
                (upd_game g (\<lambda>gm. gm\<lparr>status := Ended, endTime := block_timestamp e,
                   winner := msg_sender e\<rparr>) ?s7))
       else advanceToNextPlayer e g ?s7)"
    by (simp add: commitMove_body_def Let_def)
  from advance_outcome [OF cur7, of e] show "(\<exists>s'. commitMove e g cardIndex r c s = Inr s') \<or>
         commitMove e g cardIndex r c s = Inl NoCardsLeftToReshuffle"
    by (auto simp add: eq body)
  assume easy: "getCardType r \<noteq> CARD_TYPE_DRAW_TWO \<and> getCardType r \<noteq> CARD_TYPE_WILD_DRAW_FOUR \<or>
         length (playerHands s g (msg_sender e)) = 1 \<or>
         deckIndex (games s g) + 4 \<le> length (deck (games s g))"
  show "\<exists>s'. commitMove e g cardIndex r c s = Inr s'"
  proof (cases "playerHands ?s7 g (msg_sender e) = []")
    case True
    then show ?thesis by (simp add: eq body)
  next
    case False
    have h7: "playerHands ?s7 g (msg_sender e) =
        take cardIndex (playerHands s g (msg_sender e)) @
        drop (Suc cardIndex) (playerHands s g (msg_sender e))"
      by (simp add: pf)
    from False h7 idx have "length (playerHands s g (msg_sender e)) \<noteq> 1"
      by (cases "playerHands s g (msg_sender e)") auto
    with easy have "getCardType r \<noteq> CARD_TYPE_DRAW_TWO \<and> getCardType r \<noteq> CARD_TYPE_WILD_DRAW_FOUR \<or>
         deckIndex (games s g) + 4 \<le> length (deck (games s g))" by blast
    with z have "skipNextPlayer (games ?s7 g) \<and> 0 < pendingDraws (games ?s7 g) \<longrightarrow>
        deckIndex (games ?s7 g) + pendingDraws (games ?s7 g) \<le> length (deck (games ?s7 g))"
      by (auto simp add: pf)
    from advance_succeeds [OF cur7 this, of e] False show ?thesis
      by (simp add: eq body)
  qed
qed

section \<open>Games played from the deployed contract\<close>

lemma play_append: "play (xs @ ys) s = play ys (play xs s)"
  by (induction xs arbitrary: s) auto

lemma play_replicate:
  "0 < n \<Longrightarrow> play (replicate n x) s = play (replicate (n - 1) x) (play [x] s)"
proof -
  assume "0 < n"
  then obtain m where n: "n = Suc m" by (cases n) auto
  obtain e a where x: "x = (e, a)" by (cases x)
  show ?thesis by (simp add: n x)
qed

lemmas trace_defs = lobby_def first_play_def pile_out_def rounds_def vulnerable_def exposed_def
  declared_def declared_draw_def starving_def starved_def play_append play_replicate

lemma reachable_trace:
  "\<forall>x \<in> set tr. \<exists>b. fst x = caller b \<Longrightarrow> reachable (play tr deployed)"
proof -
  assume "\<forall>x \<in> set tr. \<exists>b. fst x = caller b"
  then have "\<forall>(e, a) \<in> set tr. fair_env e"
    using fair_caller by fastforce
  with reachable.init show ?thesis by (rule reachable_play)
qed

lemma reachable_traces:
  "reachable (play lobby deployed)"
  "reachable (play pile_out deployed)"
  "reachable (play vulnerable deployed)"
  "reachable (play exposed deployed)"
  "reachable (play starving deployed)"
  "reachable (play starved deployed)"
  by (rule reachable_trace,
      (auto simp add: lobby_def pile_out_def rounds_def vulnerable_def exposed_def
         starving_def starved_def)[1])+

lemma transact_cases:
  "perform e a s = Inr s' \<Longrightarrow> transact e a s = s'"
  "perform e a s = Inl err \<Longrightarrow> transact e a s = s"
  by (simp_all add: transact_def)

lemma deck_split:
  "[0..<DECK_SIZE] = [0, 1, 2, 3, 4, 5, 6] @ [7] @ [8, 9, 10, 11, 12, 13, 14] @ [15..<108]"
  by code_simp

lemma deck_rest: "drop 15 sortedDeck = [15..<108]"
  by (simp add: sortedDeck_upt DECK_SIZE_def del: upt_rec_numeral)

lemma lobby_state:
  "let s = play lobby deployed in
     playerHands s 1 1 = [0, 1, 2, 3, 4, 5, 6] \<and> playerHands s 1 2 = [8, 9, 10, 11, 12, 13, 14] \<and>
     players (games s 1) = [1, 2] \<and> status (games s 1) = Started \<and>
     currentPlayerIndex (games s 1) = 0 \<and> gameIdCounter s = 1 \<and>
     moves (games s 1) = [] \<and> topCard (games s 1) = 7 \<and> topCardId (games s 1) = 7 \<and>
     currentColor (games s 1) = 0 \<and> deckIndex (games s 1) = 15 \<and>
     deck (games s 1) = sortedDeck"
  by (simp add: trace_defs run_defs cong: let_weak_cong)

lemma first_play_state:
  "let s = play first_play deployed in
     playerHands s 1 1 = [1, 2, 3, 4, 5, 6] \<and> playerHands s 1 2 = [8, 9, 10, 11, 12, 13, 14] \<and>
     players (games s 1) = [1, 2] \<and> status (games s 1) = Started \<and>
     moves (games s 1) = [0] \<and> topCard (games s 1) = 0 \<and> deckIndex (games s 1) = 15 \<and>
     deck (games s 1) = sortedDeck"
  by (simp add: trace_defs run_defs cong: let_weak_cong)

lemma declared_state:
  "let s = play declared deployed in
     playerHands s 1 1 = [5, 6] \<and> hasCalledUno s 1 1 \<and> status (games s 1) = Started \<and>
     players (games s 1) = [1, 2] \<and> currentPlayerIndex (games s 1) = 0 \<and>
     deckIndex (games s 1) = 20"
  by (simp add: trace_defs run_defs cong: let_weak_cong)

lemma declared_draw_state:
  "let s = play declared_draw deployed in
     playerHands s 1 1 = [5, 6, 20] \<and> hasCalledUno s 1 1 \<and> status (games s 1) = Started \<and>
     currentPlayerIndex (games s 1) = 0 \<and> deckIndex (games s 1) = 21"
  by (simp add: trace_defs run_defs cong: let_weak_cong)

text \<open>
  C1. In \<open>lobby\<close> the ledger of game 1 is the 108 ids. After the play of \<open>first_play\<close>
  (address 1 puts its red 0 on the red 7) the ledger holds 107 cards and id 7, the card
  dealt as the first top card, is none of them: \<open>createGame\<close> leaves it out of \<open>moves\<close>,
  so the first play overwrites the only place that held it.
\<close>

theorem first_play_loses_top_card:
  "ledger (play lobby deployed) 1 = mset [0..<DECK_SIZE] \<and>
   play first_play deployed = transact (caller 1) (CommitMove 1 0 0 0) (play lobby deployed) \<and>
   7 \<notin># ledger (play first_play deployed) 1 \<and>
   size (ledger (play first_play deployed) 1) = 107 \<and>
   ledger (play first_play deployed) 1 \<noteq> mset [0..<DECK_SIZE]"
proof -
  note before = lobby_state [unfolded Let_def]
  note after = first_play_state [unfolded Let_def]
  have gen: "mset (A @ [t] @ B @ D) = mset (A @ B) + mset D + {#t#}" for A B D :: "nat list" and t
    by simp
  have l0: "ledger (play lobby deployed) 1 =
      mset ([0, 1, 2, 3, 4, 5, 6] @ [8, 9, 10, 11, 12, 13, 14]) + mset (drop 15 sortedDeck) + {#7#}"
    using before by (simp add: ledger_def)
  have a: "ledger (play lobby deployed) 1 = mset [0..<DECK_SIZE]"
    unfolding l0 deck_split deck_rest gen ..
  have l: "ledger (play first_play deployed) 1 =
      mset [1, 2, 3, 4, 5, 6] + mset [8, 9, 10, 11, 12, 13, 14] + mset (drop 15 sortedDeck) + mset [0]"
    using after by (simp add: ledger_def)
  have b: "7 \<notin># ledger (play first_play deployed) 1"
    unfolding l deck_rest by (simp del: upt_rec_numeral)
  have c: "size (ledger (play first_play deployed) 1) = 107"
    unfolding l deck_rest by (simp del: upt_rec_numeral)
  have "7 \<in># mset [0..<DECK_SIZE]"
    by (simp add: DECK_SIZE_def del: upt_rec_numeral)
  with b have d: "ledger (play first_play deployed) 1 \<noteq> mset [0..<DECK_SIZE]"
    by metis
  have t: "play first_play deployed =
      transact (caller 1) (CommitMove 1 0 0 0) (play lobby deployed)"
    by (simp add: first_play_def play_append)
  from a t b c d show ?thesis by blast
qed

text \<open>The storages that the longer games reach, by evaluation.\<close>

lemma pile_out_state:
  "let s = play pile_out deployed in
     first_failed (preconditions (caller 1) (CommitMove 1 96 104 0) s) = None \<and>
     playerHands s 1 1 ! 96 = 104 \<and> length (playerHands s 1 1) = 100 \<and>
     deckIndex (games s 1) = 108 \<and> length (deck (games s 1)) = 108 \<and>
     moves (games s 1) = [] \<and>
     commitMove (caller 1) 1 96 104 0 s = Inl NoCardsLeftToReshuffle"
  by (simp add: trace_defs run_defs isCardPlayableInternal_def getCardType_def getCardColor_def
        band_defs type_defs DECK_SIZE_def cong: let_weak_cong)

lemma vulnerable_state:
  "let s = play vulnerable deployed in
     playerHands s 1 1 = [5, 6] \<and> \<not> hasCalledUno s 1 1 \<and> status (games s 1) = Started \<and>
     players (games s 1) = [1, 2] \<and> currentPlayerIndex (games s 1) = 0 \<and>
     gameIdCounter s = 1 \<and> topCardId (games s 1) = 4 \<and> currentColor (games s 1) = 0 \<and>
     deckIndex (games s 1) = 20 \<and> deck (games s 1) = sortedDeck"
  by (simp add: trace_defs run_defs cong: let_weak_cong)

lemma exposed_state:
  "let s = play exposed deployed in
     playerHands s 1 1 = [6] \<and> unoWindowOpen s 1 \<and> unoWindowPlayer s 1 = 1 \<and>
     status (games s 1) = Started \<and> players (games s 1) = [1, 2] \<and>
     deckIndex (games s 1) = 20 \<and> deck (games s 1) = sortedDeck"
  by (simp add: trace_defs run_defs cong: let_weak_cong)

lemma starving_state:
  "let s = play starving deployed in
     playerHands s 1 1 = [5, 6] \<and> \<not> hasCalledUno s 1 1 \<and> status (games s 1) = Started \<and>
     players (games s 1) = [1, 2] \<and> currentPlayerIndex (games s 1) = 0 \<and>
     gameIdCounter s = 1 \<and> topCardId (games s 1) = 4 \<and> currentColor (games s 1) = 0 \<and>
     moves (games s 1) = [4] \<and> deck (games s 1) = [3, 2, 1, 0] \<and> deckIndex (games s 1) = 4"
  by (simp add: trace_defs run_defs cong: let_weak_cong)

lemma starved_state:
  "let s = play starved deployed in
     playerHands s 1 1 = [6] \<and> unoWindowOpen s 1 \<and> unoWindowPlayer s 1 = 1 \<and>
     \<not> unoPenaltyApplied s 1 1 \<and>
     status (games s 1) = Started \<and> players (games s 1) = [1, 2] \<and>
     currentPlayerIndex (games s 1) = 1 \<and>
     moves (games s 1) = [4, 5] \<and> deck (games s 1) = [3, 2, 1, 0] \<and> deckIndex (games s 1) = 4 \<and>
     first_failed (preconditions (caller 2) (PenalizeUno 1 1) s) = None \<and>
     penalizeUno (caller 2) 1 1 s = Inl NoCardsLeftToReshuffle"
  by (simp add: trace_defs run_defs cong: let_weak_cong)

lemma drawCard_leaves_declaration:
  assumes ok: "drawCard e g endTurn s = Inr s'" and keep: "\<not> endTurn"
  shows "hasCalledUno s' = hasCalledUno s"
proof -
  from ok obtain s1 where
    r: "(deckIndex (games s g) \<ge> length (deck (games s g)) \<and> reshuffleFromDiscards e g s = Inr s1) \<or>
     (deckIndex (games s g) < length (deck (games s g)) \<and> s1 = s)"
    and a: "(endTurn \<and> advanceToNextPlayer e g
        (set_hand g (msg_sender e)
          (playerHands s1 g (msg_sender e) @ [deck (games s1 g) ! deckIndex (games s1 g)])
          (upd_game g (\<lambda>gm. gm\<lparr>deckIndex := deckIndex gm + 1\<rparr>) (closeWindowOnDraw e g s1))) = Inr s') \<or>
     (\<not> endTurn \<and> s' =
        set_hand g (msg_sender e)
          (playerHands s1 g (msg_sender e) @ [deck (games s1 g) ! deckIndex (games s1 g)])
          (upd_game g (\<lambda>gm. gm\<lparr>deckIndex := deckIndex gm + 1\<rparr>) (closeWindowOnDraw e g s1)))"
    by (rule drawCard_cases)
  from r have "hasCalledUno s1 = hasCalledUno s"
    unfolding reshuffleFromDiscards_def
    by (auto simp add: Let_def helper_simps split: if_splits)
  with a keep show ?thesis
    by (simp add: helper_simps closeWindowOnDraw_frame)
qed

lemma transact_changed:
  "transact e a s \<noteq> s \<Longrightarrow> perform e a s = Inr (transact e a s)"
  by (cases "perform e a s") (simp_all add: transact_def)

text \<open>
  C3. In \<open>vulnerable\<close> address 1 holds two cards and is to move. Its \<open>callUno\<close>, sent
  without value, is accepted and sets its declaration flag (\<open>declared\<close>). Its draw in
  \<open>declared_draw\<close> is accepted too, the hand growing to three cards, and the flag is
  still set: \<open>drawCard\<close> does not reset \<open>hasCalledUno\<close>.
\<close>

theorem draw_keeps_declaration:
  "playerHands (play vulnerable deployed) 1 1 = [5, 6] \<and>
   msg_value (free_caller 1) = 0 \<and>
   callUno (free_caller 1) 1 (play vulnerable deployed) = Inr (play declared deployed) \<and>
   playerHands (play declared deployed) 1 1 = [5, 6] \<and>
   hasCalledUno (play declared deployed) 1 1 \<and>
   drawCard (caller 1) 1 False (play declared deployed) = Inr (play declared_draw deployed) \<and>
   playerHands (play declared_draw deployed) 1 1 = [5, 6, 20] \<and>
   hasCalledUno (play declared_draw deployed) 1 1"
proof -
  let ?v = "play vulnerable deployed"
  let ?d = "play declared deployed"
  let ?dd = "play declared_draw deployed"
  note start = vulnerable_state [unfolded Let_def]
  note before = declared_state [unfolded Let_def]
  note after = declared_draw_state [unfolded Let_def]
  have t1: "?d = transact (free_caller 1) (CallUno 1) ?v"
    by (simp add: declared_def play_append)
  from start before have "hasCalledUno ?d 1 1 \<noteq> hasCalledUno ?v 1 1" by simp
  then have "?d \<noteq> ?v" by auto
  with t1 have "transact (free_caller 1) (CallUno 1) ?v \<noteq> ?v" by simp
  from transact_changed [OF this] t1
  have called: "callUno (free_caller 1) 1 ?v = Inr ?d" by simp
  have t2: "?dd = transact (caller 1) (DrawCard 1 False) ?d"
    by (simp add: declared_draw_def play_append)
  from before after have "playerHands ?dd 1 1 \<noteq> playerHands ?d 1 1" by simp
  then have "?dd \<noteq> ?d" by auto
  with t2 have "transact (caller 1) (DrawCard 1 False) ?d \<noteq> ?d" by simp
  from transact_changed [OF this] t2
  have drawn: "drawCard (caller 1) 1 False ?d = Inr ?dd" by simp
  have "msg_value (free_caller 1) = 0" by (simp add: free_caller_def)
  with start before after called drawn show ?thesis by blast
qed

section \<open>The revealed id and the challenge window\<close>

text \<open>
  C2. In a reachable storage, let the player to move in a started game call \<open>commitMove\<close>,
  the fee attached, with an index into its hand, a colour of at most 3 and a revealed id
  below 108 that is playable on \<open>topCardId\<close> and \<open>currentColor\<close>. Nothing relates the
  revealed id to the card at the index. The call succeeds, or it reverts for want of cards
  to serve the draw that the revealed id forces on the next player; it succeeds whenever
  the revealed id is no Draw Two and no Wild Draw Four, or the hand holds one card, or four
  cards are left in the pile. When it succeeds, the card at the index leaves the hand and
  becomes \<open>topCard\<close>, while \<open>topCardId\<close> is the revealed id.
\<close>

theorem commitMove_trusts_revealed_id:
  assumes reach: "reachable s"
    and g: "0 < g" "g \<le> gameIdCounter s"
    and st: "status (games s g) = Started"
    and fee: "inco_getFee e * 2 \<le> msg_value e"
    and turn: "players (games s g) ! currentPlayerIndex (games s g) = msg_sender e"
    and idx: "cardIndex < length (playerHands s g (msg_sender e))"
    and r: "r < DECK_SIZE"
    and playable: "isCardPlayableInternal r (topCardId (games s g)) (currentColor (games s g))"
    and c: "c \<le> 3"
  shows "((\<exists>s'. commitMove e g cardIndex r c s = Inr s') \<or>
          commitMove e g cardIndex r c s = Inl NoCardsLeftToReshuffle) \<and>
         (getCardType r \<noteq> CARD_TYPE_DRAW_TWO \<and> getCardType r \<noteq> CARD_TYPE_WILD_DRAW_FOUR \<or>
          length (playerHands s g (msg_sender e)) = 1 \<or>
          deckIndex (games s g) + 4 \<le> length (deck (games s g)) \<longrightarrow>
            (\<exists>s'. commitMove e g cardIndex r c s = Inr s')) \<and>
         (\<forall>s'. commitMove e g cardIndex r c s = Inr s' \<longrightarrow>
            playerHands s' g (msg_sender e) =
              take cardIndex (playerHands s g (msg_sender e)) @
              drop (Suc cardIndex) (playerHands s g (msg_sender e)) \<and>
            topCard (games s' g) = playerHands s g (msg_sender e) ! cardIndex \<and>
            topCardId (games s' g) = r)"
proof -
  from reach have wf: "well_formed s" by (rule reachable_well_formed)
  from well_formed_game [OF wf, of g] st
  have dist: "distinct (players (games s g))" and two: "2 \<le> length (players (games s g))"
    by (simp_all add: game_ok_def)
  note out = commitMove_outcome [OF wf g st fee turn c r idx playable]
  have "playerHands s' g (msg_sender e) =
          take cardIndex (playerHands s g (msg_sender e)) @
          drop (Suc cardIndex) (playerHands s g (msg_sender e)) \<and>
        topCard (games s' g) = playerHands s g (msg_sender e) ! cardIndex \<and>
        topCardId (games s' g) = r"
    if ok: "commitMove e g cardIndex r c s = Inr s'" for s'
    using commitMove_hand [OF ok dist two] commitMove_top(1,2) [OF ok] by simp
  with out show ?thesis by blast
qed

text \<open>
  In \<open>lobby\<close> address 1 plays the card at index 0, its red 0, revealing the wild id 100:
  the call succeeds, the red 0 becomes \<open>topCard\<close> and \<open>topCardId\<close> is 100.
\<close>

theorem commitMove_trusts_revealed_id_witness:
  "playerHands (play lobby deployed) 1 1 ! 0 = 0 \<and>
   (\<exists>s'. commitMove (caller 1) 1 0 100 2 (play lobby deployed) = Inr s' \<and>
      playerHands s' 1 1 = [1, 2, 3, 4, 5, 6] \<and> topCard (games s' 1) = 0 \<and>
      topCardId (games s' 1) = 100)"
proof -
  let ?s = "play lobby deployed"
  note st = lobby_state [unfolded Let_def]
  from st have pre: "0 < (1::nat)" "1 \<le> gameIdCounter ?s" "status (games ?s 1) = Started"
    "inco_getFee (caller 1) * 2 \<le> msg_value (caller 1)"
    "players (games ?s 1) ! currentPlayerIndex (games ?s 1) = msg_sender (caller 1)"
    "0 < length (playerHands ?s 1 (msg_sender (caller 1)))"
    "100 < DECK_SIZE"
    "isCardPlayableInternal 100 (topCardId (games ?s 1)) (currentColor (games ?s 1))"
    "(2::nat) \<le> 3"
    by (simp_all add: caller_def DECK_SIZE_def isCardPlayableInternal_def getCardType_def
          band_defs type_defs)
  have ty: "getCardType 100 \<noteq> CARD_TYPE_DRAW_TWO \<and> getCardType 100 \<noteq> CARD_TYPE_WILD_DRAW_FOUR"
    by (simp add: getCardType_def band_defs type_defs)
  note th = commitMove_trusts_revealed_id [OF reachable_traces(1) pre]
  from th ty obtain s' where ok: "commitMove (caller 1) 1 0 100 2 ?s = Inr s'" by blast
  with th have "playerHands s' 1 (msg_sender (caller 1)) =
      take 0 (playerHands ?s 1 (msg_sender (caller 1))) @
      drop (Suc 0) (playerHands ?s 1 (msg_sender (caller 1))) \<and>
      topCard (games s' 1) = playerHands ?s 1 (msg_sender (caller 1)) ! 0 \<and>
      topCardId (games s' 1) = 100"
    by blast
  with st have "playerHands s' 1 1 = [1, 2, 3, 4, 5, 6] \<and> topCard (games s' 1) = 0 \<and>
      topCardId (games s' 1) = 100"
    by (simp add: caller_def)
  moreover from st have "playerHands ?s 1 1 ! 0 = 0" by simp
  ultimately show ?thesis using ok by blast
qed

text \<open>
  In \<open>pile_out\<close> the pile is drawn out and nothing has been played. Address 1 plays the
  Wild Draw Four it holds at index 96, revealing its id 104, with every precondition met:
  the call reverts, since the four cards for address 2 cannot be drawn.
\<close>

theorem wild_draw_four_on_empty_pile:
  "first_failed (preconditions (caller 1) (CommitMove 1 96 104 0) (play pile_out deployed)) = None \<and>
   playerHands (play pile_out deployed) 1 1 ! 96 = 104 \<and>
   deckIndex (games (play pile_out deployed) 1) = 108 \<and>
   length (deck (games (play pile_out deployed) 1)) = 108 \<and>
   moves (games (play pile_out deployed) 1) = [] \<and>
   commitMove (caller 1) 1 96 104 0 (play pile_out deployed) = Inl NoCardsLeftToReshuffle"
  using pile_out_state [unfolded Let_def] by simp

lemma commitMove_game:
  assumes ok: "commitMove e g cardIndex r c s = Inr s'"
  shows "players (games s' g) = players (games s g)"
    and "gameIdCounter s' = gameIdCounter s"
    and "length (playerHands s g (msg_sender e)) \<noteq> 1 \<Longrightarrow> status (games s' g) = Started"
proof -
  let ?s0 = "closeWindowOnPlay e g s"
  let ?s7 = "playCard e g cardIndex r c ?s0"
  from commitMove_Inr [OF ok] have idx: "cardIndex < length (playerHands ?s0 g (msg_sender e))"
    and i: "cardIndex < length (playerHands s g (msg_sender e))"
    and st: "status (games s g) = Started"
    and body: "commitMove_body e g cardIndex r c ?s0 = Inr s'"
    by (simp_all add: closeWindowOnPlay_frame)
  note pf = playCard_fields [OF idx] closeWindowOnPlay_frame
  have h7: "playerHands ?s7 g (msg_sender e) =
      take cardIndex (playerHands s g (msg_sender e)) @
      drop (Suc cardIndex) (playerHands s g (msg_sender e))"
    by (simp add: pf)
  from commitMove_body_cases [OF body]
  show "players (games s' g) = players (games s g)"
  proof
    assume "playerHands ?s7 g (msg_sender e) = [] \<and>
          s' = removeFromActiveGames g
                 (upd_game g (\<lambda>gm. gm\<lparr>status := Ended, endTime := block_timestamp e,
                    winner := msg_sender e\<rparr>) ?s7)"
    then show ?thesis by (simp add: helper_simps pf)
  next
    assume "playerHands ?s7 g (msg_sender e) \<noteq> [] \<and> advanceToNextPlayer e g ?s7 = Inr s'"
    then have "advanceToNextPlayer e g ?s7 = Inr s'" by simp
    from advance_frame [OF this] show ?thesis by (simp add: pf)
  qed
  from commitMove_body_cases [OF body]
  show "gameIdCounter s' = gameIdCounter s"
  proof
    assume "playerHands ?s7 g (msg_sender e) = [] \<and>
          s' = removeFromActiveGames g
                 (upd_game g (\<lambda>gm. gm\<lparr>status := Ended, endTime := block_timestamp e,
                    winner := msg_sender e\<rparr>) ?s7)"
    then show ?thesis by (simp add: helper_simps pf)
  next
    assume "playerHands ?s7 g (msg_sender e) \<noteq> [] \<and> advanceToNextPlayer e g ?s7 = Inr s'"
    then have "advanceToNextPlayer e g ?s7 = Inr s'" by simp
    from advance_frame [OF this] show ?thesis by (simp add: pf)
  qed
  assume more: "length (playerHands s g (msg_sender e)) \<noteq> 1"
  with i h7 have "playerHands ?s7 g (msg_sender e) \<noteq> []"
    by (cases "playerHands s g (msg_sender e)") auto
  with commitMove_body_cases [OF body] have "advanceToNextPlayer e g ?s7 = Inr s'" by simp
  from advance_frame [OF this] st show "status (games s' g) = Started" by (simp add: pf)
qed

lemma penalizeUno_accepts:
  assumes "0 < g" "g \<le> gameIdCounter s" "status (games s g) = Started"
    "msg_sender e \<in> set (players (games s g))" "msg_sender e \<noteq> t"
    "inco_getFee e * 2 \<le> msg_value e"
    "unoWindowOpen s g" "unoWindowPlayer s g = t" "\<not> unoPenaltyApplied s g t"
  shows "penalizeUno e g t s =
     forceDrawCards e g t 2 (set_unoPenaltyApplied g t True (set_unoWindowOpen g False s))"
  using assms by (simp add: penalizeUno_def validateGame_def onlyPlayer_def Let_def)

lemma penalizeUno_effect:
  assumes ok: "penalizeUno e g t s = Inr s'"
  shows "\<not> unoWindowOpen s' g"
    and "length (playerHands s' g t) = length (playerHands s g t) + 2"
    and "\<not> unoPenaltyApplied s' g t"
    and "\<not> hasCalledUno s' g t"
    and "status (games s' g) = Started"
    and "players (games s' g) = players (games s g)"
    and "gameIdCounter s' = gameIdCounter s"
proof -
  let ?s2 = "set_unoPenaltyApplied g t True (set_unoWindowOpen g False s)"
  from ok have fd: "forceDrawCards e g t 2 ?s2 = Inr s'"
    and st: "status (games s g) = Started"
    unfolding penalizeUno_def validateGame_def
    by (simp_all add: Let_def split: sum.splits if_splits)
  note ff = forceDrawCards_fields [OF fd]
  show "\<not> unoWindowOpen s' g" by (simp add: ff helper_simps)
  show "length (playerHands s' g t) = length (playerHands s g t) + 2"
    by (simp add: ff helper_simps)
  show "\<not> unoPenaltyApplied s' g t" by (simp add: ff helper_simps)
  show "\<not> hasCalledUno s' g t" by (simp add: ff helper_simps)
  from st show "status (games s' g) = Started" by (simp add: ff helper_simps)
  show "players (games s' g) = players (games s g)" by (simp add: ff helper_simps)
  show "gameIdCounter s' = gameIdCounter s" by (simp add: ff helper_simps)
qed

lemma penalizeUno_closed:
  assumes "0 < g" "g \<le> gameIdCounter s" "status (games s g) = Started"
    "msg_sender e \<in> set (players (games s g))" "msg_sender e \<noteq> t"
    "inco_getFee e * 2 \<le> msg_value e" "\<not> unoWindowOpen s g"
  shows "penalizeUno e g t s = Inl ChallengeWindowNotOpen"
  using assms by (simp add: penalizeUno_def validateGame_def onlyPlayer_def Let_def)

lemma penalizeUno_fails:
  assumes "msg_sender e = t \<or> \<not> unoWindowOpen s g \<or> unoWindowPlayer s g \<noteq> t \<or>
      unoPenaltyApplied s g t"
  shows "(\<exists>err. penalizeUno e g t s = Inl err) \<and> transact e (PenalizeUno g t) s = s"
proof -
  from assms have "\<exists>err. penalizeUno e g t s = Inl err"
    by (auto simp add: penalizeUno_def Let_def split: sum.splits)
  then show ?thesis by (auto simp add: transact_def)
qed

lemma window_stays_closed:
  assumes closed: "\<not> unoWindowOpen s g" and opened: "unoWindowOpen (transact e a s) g"
  shows "\<exists>i r c. a = CommitMove g i r c \<and> length (playerHands s g (msg_sender e)) = 2 \<and>
           \<not> hasCalledUno s g (msg_sender e)"
proof (cases "perform e a s")
  case (Inl err)
  with closed opened show ?thesis by (simp add: transact_def)
next
  case (Inr s')
  with opened have o: "unoWindowOpen s' g" by (simp add: transact_def)
  show ?thesis
  proof (cases a)
    case (CreateGame creator t)
    with Inr obtain n where "createGame e creator t s = Inr (n, s')"
      by (auto split: sum.splits)
    from createGame_fields(15) [OF this] closed o show ?thesis by simp
  next
    case (JoinGame g' joinee)
    with Inr have "unoWindowOpen s' = unoWindowOpen s"
      by (auto simp add: joinGame_def validateGame_def Let_def helper_simps dealHandToPlayer_def
            split: if_splits sum.splits)
    with closed o show ?thesis by simp
  next
    case (StartGame g')
    with Inr have "unoWindowOpen s' = unoWindowOpen s"
      by (auto simp add: startGame_def validateGame_def Let_def helper_simps
            removeFromNotStartedGames_def split: if_splits sum.splits)
    with closed o show ?thesis by simp
  next
    case (CommitMove g' i r c)
    with Inr have ok: "commitMove e g' i r c s = Inr s'" by simp
    show ?thesis
    proof (cases "g' = g")
      case True
      with commitMove_top(3) [OF ok] o CommitMove show ?thesis by simp
    next
      case False
      then have "g \<noteq> g'" by simp
      from commitMove_top(5) [OF ok this] closed o show ?thesis by simp
    qed
  next
    case (CallUno g')
    with Inr have "unoWindowOpen s' = unoWindowOpen s"
      by (auto simp add: callUno_def validateGame_def onlyPlayer_def Let_def helper_simps
            split: if_splits sum.splits)
    with closed o show ?thesis by simp
  next
    case (PenalizeUno g' t)
    with Inr have ok: "penalizeUno e g' t s = Inr s'" by simp
    then have fd: "forceDrawCards e g' t 2
        (set_unoPenaltyApplied g' t True (set_unoWindowOpen g' False s)) = Inr s'"
      unfolding penalizeUno_def
      by (simp add: Let_def split: sum.splits if_splits)
    from forceDrawCards_fields(16) [OF fd] closed o show ?thesis
      by (simp add: helper_simps split: if_splits)
  next
    case (DrawCard g' b)
    with Inr have ok: "drawCard e g' b s = Inr s'" by simp
    from ok obtain s1 where
      r: "(deckIndex (games s g') \<ge> length (deck (games s g')) \<and>
            reshuffleFromDiscards e g' s = Inr s1) \<or>
          (deckIndex (games s g') < length (deck (games s g')) \<and> s1 = s)"
      and a: "(b \<and> advanceToNextPlayer e g'
          (set_hand g' (msg_sender e)
            (playerHands s1 g' (msg_sender e) @ [deck (games s1 g') ! deckIndex (games s1 g')])
            (upd_game g' (\<lambda>gm. gm\<lparr>deckIndex := deckIndex gm + 1\<rparr>) (closeWindowOnDraw e g' s1))) = Inr s') \<or>
       (\<not> b \<and> s' =
          set_hand g' (msg_sender e)
            (playerHands s1 g' (msg_sender e) @ [deck (games s1 g') ! deckIndex (games s1 g')])
            (upd_game g' (\<lambda>gm. gm\<lparr>deckIndex := deckIndex gm + 1\<rparr>) (closeWindowOnDraw e g' s1)))"
      by (rule drawCard_cases)
    from r have w1: "unoWindowOpen s1 = unoWindowOpen s"
      unfolding reshuffleFromDiscards_def
      by (auto simp add: Let_def helper_simps split: if_splits)
    from a have "unoWindowOpen s' = (unoWindowOpen s1)(g' := False)"
    proof
      assume "b \<and> advanceToNextPlayer e g'
          (set_hand g' (msg_sender e)
            (playerHands s1 g' (msg_sender e) @ [deck (games s1 g') ! deckIndex (games s1 g')])
            (upd_game g' (\<lambda>gm. gm\<lparr>deckIndex := deckIndex gm + 1\<rparr>) (closeWindowOnDraw e g' s1))) = Inr s'"
      then have "advanceToNextPlayer e g'
          (set_hand g' (msg_sender e)
            (playerHands s1 g' (msg_sender e) @ [deck (games s1 g') ! deckIndex (games s1 g')])
            (upd_game g' (\<lambda>gm. gm\<lparr>deckIndex := deckIndex gm + 1\<rparr>) (closeWindowOnDraw e g' s1))) = Inr s'"
        by simp
      from advance_frame [OF this] show ?thesis
        by (simp add: helper_simps closeWindowOnDraw_frame)
    next
      assume "\<not> b \<and> s' =
          set_hand g' (msg_sender e)
            (playerHands s1 g' (msg_sender e) @ [deck (games s1 g') ! deckIndex (games s1 g')])
            (upd_game g' (\<lambda>gm. gm\<lparr>deckIndex := deckIndex gm + 1\<rparr>) (closeWindowOnDraw e g' s1))"
      then show ?thesis by (simp add: helper_simps closeWindowOnDraw_frame)
    qed
    with w1 closed o show ?thesis by (simp split: if_splits)
  qed
qed

text \<open>
  C4. The life of the UNO challenge window. Let \<open>A\<close>, holding two cards and not having
  declared UNO, play successfully in a reachable storage. Then the window of the game is
  open on \<open>A\<close>, who holds one card. A \<open>penalizeUno\<close> on \<open>A\<close> by another player \<open>B\<close> of the
  game, the fee attached, then succeeds or reverts for want of the two cards; it succeeds
  when the pile holds two. When it succeeds the window is closed, \<open>A\<close> holds three cards,
  the penalty flag of \<open>A\<close> is clear, and every \<open>penalizeUno\<close> that passes the checks
  before the window check reverts with \<open>ChallengeWindowNotOpen\<close>. A closed window is opened
  only by a \<open>commitMove\<close> of a player who holds two cards and has not declared. Finally
  \<open>penalizeUno\<close> reverts, leaving the storage as it was, when the caller is the target,
  when the window is closed, when the target is not the player of the window, and when the
  penalty flag of the target is set.
\<close>

theorem uno_window_lifecycle:
  assumes reach: "reachable s"
    and two: "length (playerHands s g (msg_sender eA)) = 2"
    and quiet: "\<not> hasCalledUno s g (msg_sender eA)"
    and played: "commitMove eA g i r c s = Inr s1"
    and other: "msg_sender eB \<noteq> msg_sender eA" "msg_sender eB \<in> set (players (games s g))"
    and fee: "inco_getFee eB * 2 \<le> msg_value eB"
  shows "unoWindowOpen s1 g \<and> unoWindowPlayer s1 g = msg_sender eA \<and>
         length (playerHands s1 g (msg_sender eA)) = 1 \<and>
         ((\<exists>s2. penalizeUno eB g (msg_sender eA) s1 = Inr s2) \<or>
          penalizeUno eB g (msg_sender eA) s1 = Inl NoCardsLeftToReshuffle) \<and>
         (deckIndex (games s1 g) + 2 \<le> length (deck (games s1 g)) \<longrightarrow>
            (\<exists>s2. penalizeUno eB g (msg_sender eA) s1 = Inr s2)) \<and>
         (\<forall>s2. penalizeUno eB g (msg_sender eA) s1 = Inr s2 \<longrightarrow>
            \<not> unoWindowOpen s2 g \<and> length (playerHands s2 g (msg_sender eA)) = 3 \<and>
            \<not> unoPenaltyApplied s2 g (msg_sender eA) \<and>
            (\<forall>e t. msg_sender e \<in> set (players (games s2 g)) \<and> msg_sender e \<noteq> t \<and>
                 inco_getFee e * 2 \<le> msg_value e \<longrightarrow>
               penalizeUno e g t s2 = Inl ChallengeWindowNotOpen)) \<and>
         (\<forall>s' e a. \<not> unoWindowOpen s' g \<and> unoWindowOpen (transact e a s') g \<longrightarrow>
            (\<exists>i r c. a = CommitMove g i r c \<and> length (playerHands s' g (msg_sender e)) = 2 \<and>
               \<not> hasCalledUno s' g (msg_sender e))) \<and>
         (\<forall>s' e t. msg_sender e = t \<or> \<not> unoWindowOpen s' g \<or> unoWindowPlayer s' g \<noteq> t \<or>
               unoPenaltyApplied s' g t \<longrightarrow>
            (\<exists>err. penalizeUno e g t s' = Inl err) \<and> transact e (PenalizeUno g t) s' = s')"
proof -
  let ?A = "msg_sender eA"
  from reach have wf: "well_formed s" by (rule reachable_well_formed)
  from commitMove_Inr [OF played] have g: "0 < g" "g \<le> gameIdCounter s"
    and st: "status (games s g) = Started" and idx: "i < length (playerHands s g ?A)"
    by simp_all
  from well_formed_game [OF wf, of g] st
  have dist: "distinct (players (games s g))" and n: "2 \<le> length (players (games s g))"
    and clear: "unoPenaltyApplied s g ?A = False"
    by (simp_all add: game_ok_def)
  from commitMove_top(3,4) [OF played] two quiet
  have w: "unoWindowOpen s1 g" "unoWindowPlayer s1 g = ?A" by simp_all
  from commitMove_hand [OF played dist n] two idx
  have h1: "length (playerHands s1 g ?A) = 1" by simp
  from two have "length (playerHands s g ?A) \<noteq> 1" by simp
  from commitMove_game [OF played] this
  have g1: "players (games s1 g) = players (games s g)" "gameIdCounter s1 = gameIdCounter s"
    "status (games s1 g) = Started" by simp_all
  from commitMove_top(7) [OF played clear] have p1: "\<not> unoPenaltyApplied s1 g ?A" by simp
  let ?s2 = "set_unoPenaltyApplied g ?A True (set_unoWindowOpen g False s1)"
  have eq: "penalizeUno eB g ?A s1 = forceDrawCards eB g ?A 2 ?s2"
    using g other fee w p1 g1 by (intro penalizeUno_accepts) simp_all
  have out: "(\<exists>s2. penalizeUno eB g ?A s1 = Inr s2) \<or>
      penalizeUno eB g ?A s1 = Inl NoCardsLeftToReshuffle"
    unfolding eq by (rule forceDrawCards_outcome)
  have enough: "\<exists>s2. penalizeUno eB g ?A s1 = Inr s2"
    if "deckIndex (games s1 g) + 2 \<le> length (deck (games s1 g))"
    unfolding eq using that by (intro forceDrawCards_enough) (simp add: helper_simps)
  have after: "\<not> unoWindowOpen s2 g \<and> length (playerHands s2 g ?A) = 3 \<and>
      \<not> unoPenaltyApplied s2 g ?A \<and>
      (\<forall>e t. msg_sender e \<in> set (players (games s2 g)) \<and> msg_sender e \<noteq> t \<and>
           inco_getFee e * 2 \<le> msg_value e \<longrightarrow>
         penalizeUno e g t s2 = Inl ChallengeWindowNotOpen)"
    if ok: "penalizeUno eB g ?A s1 = Inr s2" for s2
  proof -
    note pe = penalizeUno_effect [OF ok]
    from pe(2) h1 have "length (playerHands s2 g ?A) = 3" by simp
    moreover have "penalizeUno e g t s2 = Inl ChallengeWindowNotOpen"
      if "msg_sender e \<in> set (players (games s2 g))" "msg_sender e \<noteq> t"
        "inco_getFee e * 2 \<le> msg_value e" for e t
      using g g1 pe that by (intro penalizeUno_closed) simp_all
    ultimately show ?thesis using pe(1,3) by blast
  qed
  have opens: "\<exists>i r c. a = CommitMove g i r c \<and> length (playerHands s' g (msg_sender e)) = 2 \<and>
      \<not> hasCalledUno s' g (msg_sender e)"
    if "\<not> unoWindowOpen s' g \<and> unoWindowOpen (transact e a s') g" for s' e a
    using that window_stays_closed [of s' g e a] by blast
  have fails: "(\<exists>err. penalizeUno e g t s' = Inl err) \<and> transact e (PenalizeUno g t) s' = s'"
    if "msg_sender e = t \<or> \<not> unoWindowOpen s' g \<or> unoWindowPlayer s' g \<noteq> t \<or>
        unoPenaltyApplied s' g t" for s' e t
    using that by (rule penalizeUno_fails)
  from w h1 out enough after opens fails show ?thesis by blast
qed

text \<open>
  In \<open>vulnerable\<close> address 1 plays one of its two cards without declaring; address 2
  then penalizes it, and a second penalty finds the window closed.
\<close>

theorem uno_window_lifecycle_witness:
  "playerHands (play vulnerable deployed) 1 1 = [5, 6] \<and>
   commitMove (caller 1) 1 0 5 0 (play vulnerable deployed) = Inr (play exposed deployed) \<and>
   unoWindowOpen (play exposed deployed) 1 \<and> unoWindowPlayer (play exposed deployed) 1 = 1 \<and>
   playerHands (play exposed deployed) 1 1 = [6] \<and>
   (\<exists>s2. penalizeUno (caller 2) 1 1 (play exposed deployed) = Inr s2 \<and>
      \<not> unoWindowOpen s2 1 \<and> length (playerHands s2 1 1) = 3 \<and> \<not> unoPenaltyApplied s2 1 1 \<and>
      penalizeUno (caller 2) 1 1 s2 = Inl ChallengeWindowNotOpen \<and>
      transact (caller 2) (PenalizeUno 1 1) s2 = s2)"
proof -
  let ?s = "play vulnerable deployed"
  let ?s1 = "play exposed deployed"
  note v = vulnerable_state [unfolded Let_def]
  note x = exposed_state [unfolded Let_def]
  from reachable_traces(3) have wf: "well_formed ?s" by (rule reachable_well_formed)
  from v have pre: "0 < (1::nat)" "1 \<le> gameIdCounter ?s" "status (games ?s 1) = Started"
    "inco_getFee (caller 1) * 2 \<le> msg_value (caller 1)"
    "players (games ?s 1) ! currentPlayerIndex (games ?s 1) = msg_sender (caller 1)"
    "(0::nat) \<le> 3" "5 < DECK_SIZE"
    "0 < length (playerHands ?s 1 (msg_sender (caller 1)))"
    "isCardPlayableInternal 5 (topCardId (games ?s 1)) (currentColor (games ?s 1))"
    by (simp_all add: caller_def DECK_SIZE_def isCardPlayableInternal_def getCardType_def
          getCardColor_def band_defs type_defs)
  have ty: "getCardType 5 \<noteq> CARD_TYPE_DRAW_TWO \<and> getCardType 5 \<noteq> CARD_TYPE_WILD_DRAW_FOUR"
    by (simp add: getCardType_def band_defs type_defs)
  from commitMove_outcome(2) [OF wf pre] ty
  obtain s' where ok: "commitMove (caller 1) 1 0 5 0 ?s = Inr s'" by blast
  have "?s1 = transact (caller 1) (CommitMove 1 0 5 0) ?s"
    by (simp add: exposed_def play_append)
  with ok have s': "s' = ?s1" by (simp add: transact_def)
  from ok s' have played: "commitMove (caller 1) 1 0 5 0 ?s = Inr ?s1" by simp
  from v have hyp: "length (playerHands ?s 1 (msg_sender (caller 1))) = 2"
    "\<not> hasCalledUno ?s 1 (msg_sender (caller 1))"
    by (simp_all add: caller_def)
  from v have oth: "msg_sender (caller 2) \<noteq> msg_sender (caller 1)"
    "msg_sender (caller 2) \<in> set (players (games ?s 1))"
    "inco_getFee (caller 2) * 2 \<le> msg_value (caller 2)"
    by (simp_all add: caller_def)
  note th = uno_window_lifecycle [OF reachable_traces(3) hyp played oth]
  from x have "deckIndex (games ?s1 1) + 2 \<le> length (deck (games ?s1 1))"
    by (simp add: sortedDeck_upt DECK_SIZE_def)
  with th obtain s2 where pen: "penalizeUno (caller 2) 1 (msg_sender (caller 1)) ?s1 = Inr s2"
    by blast
  with th have a: "\<not> unoWindowOpen s2 1 \<and>
      length (playerHands s2 1 (msg_sender (caller 1))) = 3 \<and>
      \<not> unoPenaltyApplied s2 1 (msg_sender (caller 1))"
    and b: "\<forall>e t. msg_sender e \<in> set (players (games s2 1)) \<and> msg_sender e \<noteq> t \<and>
                 inco_getFee e * 2 \<le> msg_value e \<longrightarrow>
               penalizeUno e 1 t s2 = Inl ChallengeWindowNotOpen"
    by blast+
  from penalizeUno_effect(6) [OF pen] x have "players (games s2 1) = [1, 2]" by simp
  with b [rule_format, of "caller 2" 1]
  have again: "penalizeUno (caller 2) 1 1 s2 = Inl ChallengeWindowNotOpen"
    by (simp add: caller_def)
  then have same: "transact (caller 2) (PenalizeUno 1 1) s2 = s2"
    by (simp add: transact_def)
  have me: "msg_sender (caller 1) = 1" by (simp add: caller_def)
  from v x played pen a again same show ?thesis unfolding me by simp
qed

text \<open>
  In \<open>starving\<close> the pile is drawn out and two cards lie in \<open>moves\<close> after the play of
  address 1 from two cards. The penalty of address 2, every precondition met, reverts:
  the reshuffle yields one card and the second draw finds nothing to reshuffle.
\<close>

theorem penalty_on_empty_pile:
  "playerHands (play starving deployed) 1 1 = [5, 6] \<and>
   \<not> hasCalledUno (play starving deployed) 1 1 \<and>
   commitMove (caller 1) 1 0 5 0 (play starving deployed) = Inr (play starved deployed) \<and>
   playerHands (play starved deployed) 1 1 = [6] \<and>
   unoWindowOpen (play starved deployed) 1 \<and> unoWindowPlayer (play starved deployed) 1 = 1 \<and>
   first_failed (preconditions (caller 2) (PenalizeUno 1 1) (play starved deployed)) = None \<and>
   moves (games (play starved deployed) 1) = [4, 5] \<and>
   deckIndex (games (play starved deployed) 1) = length (deck (games (play starved deployed) 1)) \<and>
   penalizeUno (caller 2) 1 1 (play starved deployed) = Inl NoCardsLeftToReshuffle"
proof -
  let ?s = "play starving deployed"
  let ?s1 = "play starved deployed"
  note v = starving_state [unfolded Let_def]
  note x = starved_state [unfolded Let_def]
  from reachable_traces(5) have wf: "well_formed ?s" by (rule reachable_well_formed)
  from v have pre: "0 < (1::nat)" "1 \<le> gameIdCounter ?s" "status (games ?s 1) = Started"
    "inco_getFee (caller 1) * 2 \<le> msg_value (caller 1)"
    "players (games ?s 1) ! currentPlayerIndex (games ?s 1) = msg_sender (caller 1)"
    "(0::nat) \<le> 3" "5 < DECK_SIZE"
    "0 < length (playerHands ?s 1 (msg_sender (caller 1)))"
    "isCardPlayableInternal 5 (topCardId (games ?s 1)) (currentColor (games ?s 1))"
    by (simp_all add: caller_def DECK_SIZE_def isCardPlayableInternal_def getCardType_def
          getCardColor_def band_defs type_defs)
  have ty: "getCardType 5 \<noteq> CARD_TYPE_DRAW_TWO \<and> getCardType 5 \<noteq> CARD_TYPE_WILD_DRAW_FOUR"
    by (simp add: getCardType_def band_defs type_defs)
  from commitMove_outcome(2) [OF wf pre] ty
  obtain s' where ok: "commitMove (caller 1) 1 0 5 0 ?s = Inr s'" by blast
  have "?s1 = transact (caller 1) (CommitMove 1 0 5 0) ?s"
    by (simp add: starved_def play_append)
  with ok have s': "s' = ?s1" by (simp add: transact_def)
  from ok s' have played: "commitMove (caller 1) 1 0 5 0 ?s = Inr ?s1" by simp
  from x have "deckIndex (games ?s1 1) = length (deck (games ?s1 1))" by simp
  with v x played show ?thesis by blast
qed

end
